theory Spec2Isabelle
  imports Main "HOL-Library.Multiset"
begin

section \<open>Documents: the velocypack slices the reconciler reads\<close>

text \<open>
  Plan, Current and Local are velocypack documents (\<^verbatim>\<open>VPackSlice\<close>). A slice is a
  JSON-like tree; \<open>VNone\<close> is the slice of type None that a failed lookup returns.
  An object is kept as the list of its members in the order in which
  \<^verbatim>\<open>VPackObjectIterator\<close> visits them; a lookup takes the first member with the key.
\<close>

datatype vpack =
    VNone
  | VNull
  | VBool bool
  | VNum int
  | VStr string
  | VArr "vpack list"
  | VObj "(string \<times> vpack) list"

text \<open>
  What can go wrong in the C++: an exception derived from \<^verbatim>\<open>std::exception\<close> (every
  velocypack type error is one, and \<^verbatim>\<open>std::string::at\<close> out of range), which the
  \<^verbatim>\<open>catch (std::exception const&)\<close> of a phase catches; and undefined behaviour (a null
  pointer dereferenced, \<^verbatim>\<open>front()\<close> of an empty string), which nothing catches.
\<close>

datatype fault = Exception | Undefined

type_synonym 'a res = "fault + 'a"

definition bindR :: "'a res \<Rightarrow> ('a \<Rightarrow> 'b res) \<Rightarrow> 'b res" where
  "bindR m f = (case m of Inl e \<Rightarrow> Inl e | Inr x \<Rightarrow> f x)"

text \<open>A \<^verbatim>\<open>for\<close> loop over a container whose body updates the state and may throw.\<close>

fun foldR :: "('a \<Rightarrow> 's \<Rightarrow> 's res) \<Rightarrow> 'a list \<Rightarrow> 's \<Rightarrow> 's res" where
  "foldR f [] s = Inr s"
| "foldR f (x # xs) s = (case f x s of Inl e \<Rightarrow> Inl e | Inr s' \<Rightarrow> foldR f xs s')"

subsection \<open>The slice operations used by Maintenance.cpp\<close>

text \<open>
  The velocypack library is not among the sources; these are its operations as the
  reconciler calls them. \<^verbatim>\<open>Slice::get(key)\<close> throws on a slice that is not an object and
  returns the None slice for a missing key; \<^verbatim>\<open>hasKey\<close> is \<^verbatim>\<open>!get(..).isNone()\<close>;
  \<^verbatim>\<open>get(path)\<close> descends and gives None as soon as a step is missing or is not an
  object; \<^verbatim>\<open>copyString\<close>, the iterators and \<^verbatim>\<open>operator[]\<close> throw on the wrong type.
\<close>

definition isObject :: "vpack \<Rightarrow> bool" where
  "isObject s = (case s of VObj _ \<Rightarrow> True | _ \<Rightarrow> False)"

definition isArray :: "vpack \<Rightarrow> bool" where
  "isArray s = (case s of VArr _ \<Rightarrow> True | _ \<Rightarrow> False)"

definition isEmptyObject :: "vpack \<Rightarrow> bool" where
  "isEmptyObject s = (s = VObj [])"

definition lookupKey :: "(string \<times> vpack) list \<Rightarrow> string \<Rightarrow> vpack" where
  "lookupKey kvs k = (case map_of kvs k of None \<Rightarrow> VNone | Some v \<Rightarrow> v)"

definition slice_get :: "vpack \<Rightarrow> string \<Rightarrow> vpack res" where
  "slice_get s k = (case s of VObj kvs \<Rightarrow> Inr (lookupKey kvs k) | _ \<Rightarrow> Inl Exception)"

definition hasKey :: "vpack \<Rightarrow> string \<Rightarrow> bool res" where
  "hasKey s k = bindR (slice_get s k) (\<lambda>v. Inr (v \<noteq> VNone))"

fun get_path :: "vpack \<Rightarrow> string list \<Rightarrow> vpack res" where
  "get_path s [] = Inl Exception"
| "get_path s [k] = slice_get s k"
| "get_path s (k # ks) =
     (case slice_get s k of
        Inl e \<Rightarrow> Inl e
      | Inr v \<Rightarrow> if v = VNone \<or> \<not> isObject v then Inr VNone else get_path v ks)"

definition hasKey_path :: "vpack \<Rightarrow> string list \<Rightarrow> bool res" where
  "hasKey_path s ks = bindR (get_path s ks) (\<lambda>v. Inr (v \<noteq> VNone))"

definition copyString :: "vpack \<Rightarrow> string res" where
  "copyString s = (case s of VStr x \<Rightarrow> Inr x | _ \<Rightarrow> Inl Exception)"

definition ObjectIterator :: "vpack \<Rightarrow> (string \<times> vpack) list res" where
  "ObjectIterator s = (case s of VObj kvs \<Rightarrow> Inr kvs | _ \<Rightarrow> Inl Exception)"

definition ArrayIterator :: "vpack \<Rightarrow> vpack list res" where
  "ArrayIterator s = (case s of VArr xs \<Rightarrow> Inr xs | _ \<Rightarrow> Inl Exception)"

definition at0 :: "vpack \<Rightarrow> vpack res" where
  "at0 s = (case s of VArr (x # _) \<Rightarrow> Inr x | _ \<Rightarrow> Inl Exception)"

text \<open>
  Modelled from the spec: \<^verbatim>\<open>VPackNormalizedCompare::equals\<close>, a function of the velocypack
  library that is not among the sources. The spec calls it an order-independent,
  normalized comparison under which field lists are set-equal: two arrays are equal when
  each element of one has an equal element in the other, two objects when every key of
  either has equal values in both (a missing key reads as None), scalars when they are the
  same value.
\<close>

lemma size_lookupKey:
  "size (lookupKey kvs k) \<le> size_list (size_prod (\<lambda>x. 0) size) kvs"
  by (induction kvs) (auto simp: lookupKey_def)

lemma size_mem_list: "x \<in> set xs \<Longrightarrow> size (x::vpack) \<le> size_list size xs"
  by (induction xs) auto

lemma size_mem_obj:
  "(k, v) \<in> set a \<Longrightarrow> size (v::vpack) < size_list (size_prod (\<lambda>x. 0) size) a"
  by (induction a) auto

function normalized_equals :: "vpack \<Rightarrow> vpack \<Rightarrow> bool" where
  "normalized_equals (VArr xs) (VArr ys) =
     (list_all (\<lambda>x. list_ex (\<lambda>y. normalized_equals x y) ys) xs \<and>
      list_all (\<lambda>y. list_ex (\<lambda>x. normalized_equals x y) xs) ys)"
| "normalized_equals (VObj a) (VObj b) =
     (list_all (\<lambda>(k, v). normalized_equals v (lookupKey b k)) a \<and>
      list_all (\<lambda>(k, w). normalized_equals (lookupKey a k) w) b)"
| "normalized_equals VNone y = (VNone = y)"
| "normalized_equals VNull y = (VNull = y)"
| "normalized_equals (VBool b) y = (VBool b = y)"
| "normalized_equals (VNum n) y = (VNum n = y)"
| "normalized_equals (VStr s) y = (VStr s = y)"
| "normalized_equals (VArr xs) VNone = False"
| "normalized_equals (VArr xs) VNull = False"
| "normalized_equals (VArr xs) (VBool b) = False"
| "normalized_equals (VArr xs) (VNum n) = False"
| "normalized_equals (VArr xs) (VStr s) = False"
| "normalized_equals (VArr xs) (VObj b) = False"
| "normalized_equals (VObj a) VNone = False"
| "normalized_equals (VObj a) VNull = False"
| "normalized_equals (VObj a) (VBool b) = False"
| "normalized_equals (VObj a) (VNum n) = False"
| "normalized_equals (VObj a) (VStr s) = False"
| "normalized_equals (VObj a) (VArr ys) = False"
  by pat_completeness auto
termination
proof (relation "measure (\<lambda>(a, b). size a + size b)", goal_cases)
  case 1
  show ?case by simp
next
  case (2 xs ys x y)
  then show ?case using size_mem_list[of x xs] size_mem_list[of y ys] by simp
next
  case (3 xs ys y x)
  then show ?case using size_mem_list[of x xs] size_mem_list[of y ys] by simp
next
  case (4 a b p k v)
  then show ?case using size_mem_obj[of k v a] size_lookupKey[of b k] by simp
next
  case (5 a b p k w)
  then show ?case using size_mem_obj[of k w b] size_lookupKey[of a k] by simp
qed

section \<open>Names and action descriptions\<close>

text \<open>
  Modelled from the spec: the string constants \<^verbatim>\<open>ID\<close>, \<^verbatim>\<open>NAME\<close>, \<^verbatim>\<open>TYPE\<close> (here \<open>TYPE_key\<close>), \<^verbatim>\<open>FIELDS\<close>,
  \<^verbatim>\<open>INDEXES\<close>, \<^verbatim>\<open>SHARDS\<close>, \<^verbatim>\<open>LEADER\<close>, \<^verbatim>\<open>LOCAL_LEADER\<close>, \<^verbatim>\<open>DATABASE\<close>, \<^verbatim>\<open>COLLECTION\<close>,
  \<^verbatim>\<open>SHARD\<close> and \<^verbatim>\<open>EDGE\<close>, which Maintenance.cpp takes from a header that is not among the
  sources. The spec's data model names the attributes \<open>id\<close>, \<open>name\<close>, \<open>type\<close>, \<open>fields\<close>,
  \<open>indexes\<close>, \<open>shards\<close> and \<open>leader\<close> and the automatic edge index. The constants that
  Maintenance.cpp defines itself follow with the values it gives them.
\<close>

definition ID :: string where "ID = ''id''"
definition NAME :: string where "NAME = ''name''"
definition TYPE_key :: string where "TYPE_key = ''type''"
definition FIELDS :: string where "FIELDS = ''fields''"
definition INDEXES :: string where "INDEXES = ''indexes''"
definition SHARDS :: string where "SHARDS = ''shards''"
definition LEADER :: string where "LEADER = ''leader''"
definition LOCAL_LEADER :: string where "LOCAL_LEADER = ''localLeader''"
definition DATABASE :: string where "DATABASE = ''database''"
definition COLLECTION :: string where "COLLECTION = ''collection''"
definition SHARD :: string where "SHARD = ''shard''"
definition EDGE :: string where "EDGE = ''edge''"

definition cmp :: "string list" where
  "cmp = [''journalSize'', ''waitForSync'', ''doCompact'', ''indexBuckets'']"
definition CURRENT_COLLECTIONS :: string where "CURRENT_COLLECTIONS = ''Current/Collections/''"
definition CURRENT_DATABASES :: string where "CURRENT_DATABASES = ''Current/Databases/''"
definition ERROR_MESSAGE :: string where "ERROR_MESSAGE = ''errorMessage''"
definition ERROR_NUM :: string where "ERROR_NUM = ''errorNum''"
definition ERROR :: string where "ERROR = ''error''"
definition PLAN_ID :: string where "PLAN_ID = ''planId''"
definition PRIMARY :: string where "PRIMARY = ''primary''"
definition SERVERS :: string where "SERVERS = ''servers''"
definition SELECTIVITY_ESTIMATE :: string where "SELECTIVITY_ESTIMATE = ''selectivityEstimate''"
definition COLLECTIONS :: string where "COLLECTIONS = ''Collections''"
definition OP :: string where "OP = ''op''"
definition UNDERSCORE :: string where "UNDERSCORE = ''_''"

text \<open>
  An \<^verbatim>\<open>ActionDescription\<close> is a map from parameter names to strings and an optional
  properties document. The parameters are listed in the order of the initializer list
  that builds them. A parameter is a string of the document (\<open>PStr\<close>) or the JSON text
  of a slice (\<open>PJson v\<close> stands for \<^verbatim>\<open>v.toJson()\<close>).
\<close>

datatype pval = PStr string | PJson vpack

record ActionDescription =
  description :: "(string \<times> pval) list"
  properties :: "vpack option"

definition toJson :: "vpack \<Rightarrow> pval res" where
  "toJson v = (if v = VNone then Inl Exception else Inr (PJson v))"

text \<open>The working state of one pass of \<^verbatim>\<open>diffPlanLocal\<close>.\<close>

record pass =
  colis :: "string set"
  indis :: "string set"
  actions :: "ActionDescription list"

definition push_back :: "ActionDescription \<Rightarrow> pass \<Rightarrow> pass" where
  "push_back a st = st\<lparr>actions := actions st @ [a]\<rparr>"

section \<open>Plan against Local: \<^verbatim>\<open>diffPlanLocal\<close> (unnamed/part_001)\<close>

definition createProps :: "vpack \<Rightarrow> vpack res" where
  "createProps s =
     bindR (ObjectIterator s) (\<lambda>kvs.
       Inr (VObj (filter (\<lambda>(key, v). \<not> (key = ID \<or> key = NAME)) kvs)))"

definition compareRelevantProps :: "vpack \<Rightarrow> vpack \<Rightarrow> vpack res" where
  "compareRelevantProps first second =
     bindR (foldR (\<lambda>property result.
              bindR (slice_get first property) (\<lambda>planned.
              bindR (slice_get second property) (\<lambda>loc.
                Inr (if planned \<noteq> loc then result @ [(property, planned)] else result))))
            cmp [])
       (\<lambda>result. Inr (VObj result))"

text \<open>The inner loop of \<^verbatim>\<open>compareIndexes\<close>: its value is the flag \<^verbatim>\<open>found\<close>.\<close>

fun findLocalIndex :: "string \<Rightarrow> vpack \<Rightarrow> vpack list \<Rightarrow> bool res" where
  "findLocalIndex ptype pfields [] = Inr False"
| "findLocalIndex ptype pfields (lindex # rest) =
     (case bindR (slice_get lindex TYPE_key) copyString of
        Inl e \<Rightarrow> Inl e
      | Inr ltype \<Rightarrow>
          if ltype = PRIMARY \<or> ltype = EDGE then findLocalIndex ptype pfields rest
          else (case slice_get lindex FIELDS of
                  Inl e \<Rightarrow> Inl e
                | Inr lfields \<Rightarrow>
                    if normalized_equals pfields lfields \<and> ptype = ltype then Inr True
                    else findLocalIndex ptype pfields rest))"

definition compareIndex ::
  "string \<Rightarrow> vpack \<Rightarrow> vpack \<Rightarrow> vpack list \<times> string set \<Rightarrow> (vpack list \<times> string set) res" where
  "compareIndex shname local pindex bi =
     (case bi of (builder, ind) \<Rightarrow>
        bindR (bindR (slice_get pindex TYPE_key) copyString) (\<lambda>ptype.
          if ptype = PRIMARY \<or> ptype = EDGE then Inr (builder, ind)
          else
            bindR (slice_get pindex FIELDS) (\<lambda>pfields.
            bindR (bindR (slice_get pindex ID) copyString) (\<lambda>pid.
            bindR (if isArray local then bindR (ArrayIterator local) (findLocalIndex ptype pfields)
                   else Inr False) (\<lambda>found.
              Inr (if \<not> found then builder @ [pindex] else builder,
                   insert (shname @ ''/'' @ pid) ind))))))"

definition compareIndexes ::
  "string \<Rightarrow> vpack \<Rightarrow> vpack \<Rightarrow> string set \<Rightarrow> (vpack list \<times> string set) res" where
  "compareIndexes shname plan local ind =
     (if isArray plan
      then bindR (ArrayIterator plan) (\<lambda>ps. foldR (compareIndex shname local) ps ([], ind))
      else Inr ([], ind))"

definition ensureIndex :: "string \<Rightarrow> string \<Rightarrow> vpack \<Rightarrow> pass \<Rightarrow> pass res" where
  "ensureIndex dbname shname index st =
     bindR (bindR (slice_get index TYPE_key) copyString) (\<lambda>ty.
     bindR (bindR (slice_get index FIELDS) toJson) (\<lambda>fs.
       Inr (push_back
             \<lparr>description = [(NAME, PStr ''EnsureIndex''), (COLLECTION, PStr shname),
                              (DATABASE, PStr dbname), (TYPE_key, PStr ty), (FIELDS, fs)],
              properties = Some index\<rparr> st)))"

definition handlePlanShard ::
  "vpack \<Rightarrow> vpack \<Rightarrow> vpack \<Rightarrow> string \<Rightarrow> string \<Rightarrow> string \<Rightarrow> string \<Rightarrow> string \<Rightarrow> pass \<Rightarrow> pass res" where
  "handlePlanShard db cprops ldb dbname colname shname serverId leaderId st =
     (let shouldBeLeading = (serverId = leaderId) in
      bindR (copyString db) (\<lambda>dbs.
        if dbs = serverId then
          (let st1 = st\<lparr>colis := insert shname (colis st)\<rparr> in
           bindR (createProps cprops) (\<lambda>props.
           bindR (hasKey ldb shname) (\<lambda>have.
             if have then
               bindR (slice_get ldb shname) (\<lambda>lcol.
               bindR (bindR (slice_get lcol LEADER) copyString) (\<lambda>localLeader.
               let leading = (localLeader = []) in
               bindR (compareRelevantProps cprops lcol) (\<lambda>properties.
               let st2 =
                 (if properties \<noteq> VObj [] \<or> leading \<noteq> shouldBeLeading
                  then push_back
                    \<lparr>description = [(NAME, PStr ''UpdateCollection''), (DATABASE, PStr dbname),
                       (COLLECTION, PStr shname),
                       (LEADER, PStr (if shouldBeLeading then [] else leaderId)),
                       (LOCAL_LEADER, PStr localLeader)],
                     properties = Some properties\<rparr> st1
                  else st1) in
               bindR (hasKey cprops INDEXES) (\<lambda>hasIndexes.
                 if hasIndexes then
                   bindR (slice_get cprops INDEXES) (\<lambda>pindexes.
                   bindR (slice_get lcol INDEXES) (\<lambda>lindexes.
                   bindR (compareIndexes shname pindexes lindexes (indis st2)) (\<lambda>(difference, indis').
                     foldR (ensureIndex dbname shname) difference (st2\<lparr>indis := indis'\<rparr>))))
                 else Inr st2))))
             else
               Inr (push_back
                 \<lparr>description = [(NAME, PStr ''CreateCollection''), (COLLECTION, PStr colname),
                    (SHARD, PStr shname), (DATABASE, PStr dbname),
                    (LEADER, PStr (if shouldBeLeading then [] else leaderId))],
                  properties = Some props\<rparr> st1))))
        else Inr st))"

definition dropIndex :: "string \<Rightarrow> string \<Rightarrow> vpack \<Rightarrow> pass \<Rightarrow> pass res" where
  "dropIndex dbname colname index st =
     bindR (bindR (slice_get index TYPE_key) copyString) (\<lambda>ty.
       if ty \<noteq> PRIMARY \<and> ty \<noteq> EDGE then
         bindR (bindR (slice_get index ID) copyString) (\<lambda>iid.
           if colname @ ''/'' @ iid \<in> indis st
           then Inr (st\<lparr>indis := indis st - {iid}\<rparr>)
           else Inr (push_back
                  \<lparr>description = [(NAME, PStr ''DropIndex''), (DATABASE, PStr dbname),
                     (COLLECTION, PStr colname), (''index'', PStr iid)],
                   properties = None\<rparr> st))
       else Inr st)"

definition handleLocalShard ::
  "string \<Rightarrow> string \<Rightarrow> vpack \<Rightarrow> vpack \<Rightarrow> string \<Rightarrow> pass \<Rightarrow> pass res" where
  "handleLocalShard dbname colname cprops shardMap serverId st =
     bindR (bindR (hasKey shardMap colname) (\<lambda>has.
              if has then
                bindR (slice_get shardMap colname) (\<lambda>servers.
                  if isArray servers then bindR (at0 servers) copyString else Inr [])
              else Inr [])) (\<lambda>plannedLeader.
     bindR (bindR (slice_get cprops LEADER) copyString) (\<lambda>leader.
       let localLeader = (leader = []) in
       if plannedLeader = UNDERSCORE @ serverId \<and> localLeader then
         Inr (push_back
           \<lparr>description = [(NAME, PStr ''ResignShardLeadership''), (DATABASE, PStr dbname),
              (SHARD, PStr colname)],
            properties = None\<rparr> st)
       else
         (let drop = (colis st = {} \<or> colname \<notin> colis st) in
          if drop then
            Inr (push_back
              \<lparr>description = [(NAME, PStr ''DropCollection''), (DATABASE, PStr dbname),
                 (COLLECTION, PStr colname)],
               properties = None\<rparr> st)
          else
            (let st1 = st\<lparr>colis := colis st - {colname}\<rparr> in
             bindR (hasKey cprops INDEXES) (\<lambda>hasIndexes.
               if hasIndexes then
                 bindR (slice_get cprops INDEXES) (\<lambda>ixs.
                   if isArray ixs
                   then bindR (ArrayIterator ixs) (\<lambda>is. foldR (dropIndex dbname colname) is st1)
                   else Inr st1)
               else Inr st1)))))"

definition getShardMap :: "vpack \<Rightarrow> vpack res" where
  "getShardMap plan =
     bindR (ObjectIterator plan) (\<lambda>databases.
     bindR (foldR (\<lambda>database shardMap.
              bindR (ObjectIterator (snd database)) (\<lambda>collections.
                foldR (\<lambda>collection shardMap'.
                    bindR (bindR (slice_get (snd collection) SHARDS) ObjectIterator) (\<lambda>shards.
                      Inr (shardMap' @ shards)))
                  collections shardMap))
            databases [])
       (\<lambda>shardMap. Inr (VObj shardMap)))"

text \<open>
  The bodies of the loops of \<^verbatim>\<open>diffPlanLocal\<close>, from the innermost outwards. The
  arguments of the call of \<^verbatim>\<open>handlePlanShard\<close> are evaluated before the call, so
  \<^verbatim>\<open>shard.value[0].copyString()\<close> may throw for an entry that is not this server.
\<close>

definition planServerEntry ::
  "vpack \<Rightarrow> vpack \<Rightarrow> string \<Rightarrow> string \<Rightarrow> string \<Rightarrow> string \<Rightarrow> vpack \<Rightarrow> vpack \<Rightarrow> pass \<Rightarrow> pass res" where
  "planServerEntry cprops ldb dbname colname shname serverId servers db st =
     bindR (bindR (at0 servers) copyString) (\<lambda>leaderId.
       handlePlanShard db cprops ldb dbname colname shname serverId leaderId st)"

definition planShard ::
  "vpack \<Rightarrow> vpack \<Rightarrow> string \<Rightarrow> string \<Rightarrow> string \<Rightarrow> string \<times> vpack \<Rightarrow> pass \<Rightarrow> pass res" where
  "planShard cprops ldb dbname colname serverId shard st =
     (if isArray (snd shard)
      then bindR (ArrayIterator (snd shard)) (\<lambda>dbs.
             foldR (planServerEntry cprops ldb dbname colname (fst shard) serverId (snd shard)) dbs st)
      else Inr st)"

definition planCollection ::
  "vpack \<Rightarrow> string \<Rightarrow> string \<Rightarrow> string \<times> vpack \<Rightarrow> pass \<Rightarrow> pass res" where
  "planCollection ldb dbname serverId pcol st =
     bindR (bindR (slice_get (snd pcol) SHARDS) ObjectIterator) (\<lambda>shards.
       foldR (planShard (snd pcol) ldb dbname (fst pcol) serverId) shards st)"

definition createDatabase :: "string \<Rightarrow> ActionDescription" where
  "createDatabase dbname =
     \<lparr>description = [(NAME, PStr ''CreateDatabase''), (DATABASE, PStr dbname)], properties = None\<rparr>"

definition dropDatabase :: "string \<Rightarrow> ActionDescription" where
  "dropDatabase dbname =
     \<lparr>description = [(NAME, PStr ''DropDatabase''), (DATABASE, PStr dbname)], properties = None\<rparr>"

definition planDatabase :: "vpack \<Rightarrow> string \<Rightarrow> string \<times> vpack \<Rightarrow> pass \<Rightarrow> pass res" where
  "planDatabase local serverId pdb st =
     bindR (hasKey local (fst pdb)) (\<lambda>have.
       if have then
         bindR (slice_get local (fst pdb)) (\<lambda>ldb.
         bindR (ObjectIterator (snd pdb)) (\<lambda>pcols.
           foldR (planCollection ldb (fst pdb) serverId) pcols st))
       else Inr (push_back (createDatabase (fst pdb)) st))"

text \<open>\<^verbatim>\<open>std::string::front()\<close> of an empty string is undefined behaviour.\<close>

definition front :: "string \<Rightarrow> char res" where
  "front s = (case s of [] \<Rightarrow> Inl Undefined | c # _ \<Rightarrow> Inr c)"

definition localShard :: "string \<Rightarrow> vpack \<Rightarrow> string \<Rightarrow> string \<times> vpack \<Rightarrow> pass \<Rightarrow> pass res" where
  "localShard dbname shardMap serverId col st =
     bindR (front (fst col)) (\<lambda>c.
       if c \<noteq> CHR ''_'' then handleLocalShard dbname (fst col) (snd col) shardMap serverId st
       else Inr st)"

definition localDatabase :: "vpack \<Rightarrow> vpack \<Rightarrow> string \<Rightarrow> string \<times> vpack \<Rightarrow> pass \<Rightarrow> pass res" where
  "localDatabase pdbs shardMap serverId db st =
     bindR (hasKey pdbs (fst db)) (\<lambda>planned.
       if planned then
         bindR (ObjectIterator (snd db)) (\<lambda>cols.
           foldR (localShard (fst db) shardMap serverId) cols st)
       else Inr st)"

definition planDatabaseCreate :: "vpack \<Rightarrow> string \<times> vpack \<Rightarrow> pass \<Rightarrow> pass res" where
  "planDatabaseCreate local pdb st =
     bindR (hasKey local (fst pdb)) (\<lambda>have.
       Inr (if \<not> have then push_back (createDatabase (fst pdb)) st else st))"

definition localDatabaseDrop :: "vpack \<Rightarrow> string \<times> vpack \<Rightarrow> pass \<Rightarrow> pass res" where
  "localDatabaseDrop plan ldb st =
     bindR (hasKey_path plan [''Databases'', fst ldb]) (\<lambda>planned.
       Inr (if \<not> planned then push_back (dropDatabase (fst ldb)) st else st))"

text \<open>
  \<^verbatim>\<open>diffPlanLocal\<close> appends to the vector \<^verbatim>\<open>actions\<close> it is given. When it throws, the
  vector is lost with the pass: \<^verbatim>\<open>executePlan\<close>, its caller, owns the vector and does
  not catch.
\<close>

definition diffPlanLocal ::
  "vpack \<Rightarrow> vpack \<Rightarrow> string \<Rightarrow> ActionDescription list \<Rightarrow> ActionDescription list res" where
  "diffPlanLocal plan local serverId acts =
     bindR (bindR (slice_get plan ''Databases'') ObjectIterator) (\<lambda>pdbs0.
     bindR (foldR (planDatabaseCreate local) pdbs0 \<lparr>colis = {}, indis = {}, actions = acts\<rparr>) (\<lambda>st1.
     bindR (ObjectIterator local) (\<lambda>ldbs.
     bindR (foldR (localDatabaseDrop plan) ldbs st1) (\<lambda>st2.
     bindR (slice_get plan COLLECTIONS) (\<lambda>pdbs.
     bindR (ObjectIterator pdbs) (\<lambda>pcols.
     bindR (foldR (planDatabase local serverId) pcols st2) (\<lambda>st3.
     bindR (getShardMap pdbs) (\<lambda>shardMap.
     bindR (foldR (localDatabase pdbs shardMap serverId) ldbs st3) (\<lambda>st4.
       Inr (actions st4))))))))))"

section \<open>Evaluation rules\<close>

lemmas slice_defs = bindR_def slice_get_def hasKey_def hasKey_path_def lookupKey_def
  copyString_def ObjectIterator_def ArrayIterator_def at0_def isArray_def isObject_def
  isEmptyObject_def toJson_def front_def

lemmas name_defs = ID_def NAME_def TYPE_key_def FIELDS_def INDEXES_def SHARDS_def LEADER_def
  LOCAL_LEADER_def DATABASE_def COLLECTION_def SHARD_def EDGE_def PRIMARY_def SERVERS_def
  COLLECTIONS_def UNDERSCORE_def PLAN_ID_def

section \<open>The Local pass: resignation\<close>

text \<open>
  C6. A locally held shard whose name does not start with the underscore, whose planned
  leader (the first entry of its server list in the shard map) is the underscore followed
  by this node's id, and whose local \<open>leader\<close> field is the empty string: the Local pass
  reaches \<^verbatim>\<open>handleLocalShard\<close>, which appends exactly one \<open>ResignShardLeadership\<close> action
  for it and nothing else (no \<open>DropCollection\<close>, no \<open>DropIndex\<close>), and leaves both
  membership sets as they were.
\<close>

theorem resign_stops_local_shard:
  assumes "slice_get shardMap colname = Inr (VArr (VStr (UNDERSCORE @ serverId) # followers))"
    and "slice_get cprops LEADER = Inr (VStr [])"
    and "front colname = Inr c" and "c \<noteq> CHR ''_''"
  shows "handleLocalShard dbname colname cprops shardMap serverId st =
           Inr (st\<lparr>actions := actions st @
             [\<lparr>description = [(NAME, PStr ''ResignShardLeadership''), (DATABASE, PStr dbname),
                 (SHARD, PStr colname)], properties = None\<rparr>]\<rparr>)
         \<and> localShard dbname shardMap serverId (colname, cprops) st =
           handleLocalShard dbname colname cprops shardMap serverId st"
  using assms
  by (simp add: handleLocalShard_def localShard_def hasKey_def bindR_def isArray_def at0_def
      copyString_def push_back_def)

theorem resign_stops_local_shard_witness:
  "handleLocalShard ''d'' ''s1''
      (VObj [(''leader'', VStr []),
             (''indexes'', VArr [VObj [(''id'', VStr ''7''), (''type'', VStr ''hash''),
                                       (''fields'', VArr [VStr ''x''])]])])
      (VObj [(''s1'', VArr [VStr ''_A'', VStr ''B''])]) ''A''
      \<lparr>colis = {''s1''}, indis = {}, actions = []\<rparr> =
    Inr \<lparr>colis = {''s1''}, indis = {}, actions =
       [\<lparr>description = [(''name'', PStr ''ResignShardLeadership''), (''database'', PStr ''d''),
                 (''shard'', PStr ''s1'')], properties = None\<rparr>]\<rparr>"
  using resign_stops_local_shard[of "VObj [(''s1'', VArr [VStr ''_A'', VStr ''B''])]" "''s1''"
      "''A''" "[VStr ''B'']"
      "VObj [(''leader'', VStr []),
             (''indexes'', VArr [VObj [(''id'', VStr ''7''), (''type'', VStr ''hash''),
                                       (''fields'', VArr [VStr ''x''])]])]"
      "CHR ''s''" "''d''" "\<lparr>colis = {''s1''}, indis = {}, actions = []\<rparr>"]
  by (simp add: slice_defs name_defs)

section \<open>The Local pass: the index-membership set\<close>

text \<open>
  C1. The Plan pass records the identity \<open>s1/7\<close> of the planned hash index \<open>7\<close> of shard
  \<open>s1\<close>; the Local pass then meets the local index \<open>7\<close> of \<open>s1\<close>, finds \<open>s1/7\<close> in the
  set and emits no \<open>DropIndex\<close>, but the identity is still in the set afterwards:
  \<^verbatim>\<open>indis.find(colname + "/" + id)\<close> is followed by \<^verbatim>\<open>indis.erase(id)\<close>, which erases the
  bare id \<open>7\<close>.
\<close>

theorem matched_identity_stays_recorded:
  "compareIndexes ''s1''
      (VArr [VObj [(''id'', VStr ''7''), (''type'', VStr ''hash''), (''fields'', VArr [VStr ''x''])]])
      (VArr [VObj [(''id'', VStr ''7''), (''type'', VStr ''hash''), (''fields'', VArr [VStr ''x''])]])
      {} = Inr ([], {''s1/7''})
   \<and> handleLocalShard ''d'' ''s1''
      (VObj [(''leader'', VStr []),
             (''indexes'', VArr [VObj [(''id'', VStr ''7''), (''type'', VStr ''hash''),
                                       (''fields'', VArr [VStr ''x''])]])])
      (VObj [(''s1'', VArr [VStr ''A''])]) ''A''
      \<lparr>colis = {''s1''}, indis = {''s1/7''}, actions = []\<rparr> =
    Inr \<lparr>colis = {}, indis = {''s1/7''}, actions = []\<rparr>"
  by (simp add: compareIndexes_def compareIndex_def handleLocalShard_def dropIndex_def
      slice_defs name_defs)

section \<open>Loops and appended actions\<close>

lemma foldR_invariant:
  assumes "foldR f xs s = Inr s'" and "P s"
    and "\<And>x t t'. x \<in> set xs \<Longrightarrow> P t \<Longrightarrow> f x t = Inr t' \<Longrightarrow> P t'"
  shows "P s'"
  using assms
proof (induction xs arbitrary: s)
  case Nil
  then show ?case by simp
next
  case (Cons x xs)
  from Cons.prems(1) obtain t where t: "f x s = Inr t" and r: "foldR f xs t = Inr s'"
    by (auto split: sum.splits)
  have "P t" using Cons.prems(2,3) t by auto
  then show ?case using Cons.IH[OF r] Cons.prems(3) by auto
qed

lemma foldR_measure:
  fixes g :: "'s \<Rightarrow> nat"
  assumes "foldR f xs s = Inr s'"
    and "\<And>x t t'. x \<in> set xs \<Longrightarrow> f x t = Inr t' \<Longrightarrow> g t' = g t + w x"
  shows "g s' = g s + sum_list (map w xs)"
  using assms
proof (induction xs arbitrary: s)
  case Nil
  then show ?case by simp
next
  case (Cons x xs)
  from Cons.prems(1) obtain t where t: "f x s = Inr t" and r: "foldR f xs t = Inr s'"
    by (auto split: sum.splits)
  have "g t = g s + w x" using Cons.prems(2) t by auto
  moreover have "g s' = g t + sum_list (map w xs)" using Cons.IH[OF r] Cons.prems(2) by auto
  ultimately show ?case by simp
qed

lemma sum_key_once:
  "distinct (map fst xs) \<Longrightarrow> k \<in> fst ` set xs \<Longrightarrow>
     sum_list (map (\<lambda>x. if fst x = k then 1 else 0) xs) = (1::nat)"
proof (induction xs)
  case Nil then show ?case by simp
next
  case (Cons x xs)
  show ?case
  proof (cases "fst x = k")
    case True
    then have "k \<notin> fst ` set xs" using Cons.prems(1) by auto
    then have "sum_list (map (\<lambda>x. if fst x = k then 1 else 0) xs) = (0::nat)"
      by (induction xs) auto
    then show ?thesis using True by simp
  next
    case False
    then show ?thesis using Cons by auto
  qed
qed

definition appends :: "(ActionDescription \<Rightarrow> bool) \<Rightarrow> pass \<Rightarrow> pass \<Rightarrow> bool" where
  "appends Q st st' = (\<exists>new. actions st' = actions st @ new \<and> list_all Q new)"

lemma appends_refl: "appends Q st st"
  by (simp add: appends_def)

lemma appends_colis: "appends Q st st' \<Longrightarrow> appends Q st (st'\<lparr>colis := c\<rparr>)"
  by (simp add: appends_def)

lemma appends_indis: "appends Q st st' \<Longrightarrow> appends Q st (st'\<lparr>indis := c\<rparr>)"
  by (simp add: appends_def)

lemma appends_trans: "appends Q a b \<Longrightarrow> appends Q b c \<Longrightarrow> appends Q a c"
  by (auto simp: appends_def)

lemma appends_push: "Q a \<Longrightarrow> appends Q st st' \<Longrightarrow> appends Q st (push_back a st')"
  by (auto simp: appends_def push_back_def)

lemmas appends_intros = appends_refl appends_colis appends_indis appends_push

lemma foldR_appends:
  assumes "foldR f xs s = Inr s'"
    and "appends Q st s"
    and "\<And>x t t'. x \<in> set xs \<Longrightarrow> f x t = Inr t' \<Longrightarrow> appends Q t t'"
  shows "appends Q st s'"
  using assms
proof (induction xs arbitrary: s)
  case Nil
  then show ?case by simp
next
  case (Cons x xs)
  from Cons.prems(1) obtain t where t: "f x s = Inr t" and r: "foldR f xs t = Inr s'"
    by (auto split: sum.splits)
  have "appends Q s t" using Cons.prems(3) t by auto
  then have "appends Q st t" using Cons.prems(2) appends_trans by blast
  then show ?case using Cons.IH[OF r] Cons.prems(3) by auto
qed

definition shardAction :: "ActionDescription \<Rightarrow> bool" where
  "shardAction a = (map_of (description a) NAME \<in> Some ` PStr ` {''UpdateCollection'', ''EnsureIndex'',
      ''CreateCollection'', ''ResignShardLeadership'', ''DropCollection'', ''DropIndex''})"

lemma bindR_Inr: "bindR m f = Inr y \<Longrightarrow> \<exists>x. m = Inr x \<and> f x = Inr y"
  by (auto simp: bindR_def split: sum.splits)

lemma ensureIndex_appends:
  "ensureIndex dbname shname index st = Inr st' \<Longrightarrow> appends shardAction st st'"
  by (auto simp: ensureIndex_def shardAction_def intro!: appends_intros dest!: bindR_Inr)

lemma handlePlanShard_appends:
  assumes "handlePlanShard db cprops ldb dbname colname shname serverId leaderId st = Inr st'"
  shows "appends shardAction st st'"
  using assms unfolding handlePlanShard_def Let_def
  apply (auto dest!: bindR_Inr split: if_splits)
  apply (erule foldR_appends | rule appends_intros | erule ensureIndex_appends | simp add: shardAction_def)+
  done

lemma dropIndex_appends:
  "dropIndex dbname colname index st = Inr st' \<Longrightarrow> appends shardAction st st'"
  by (auto simp: dropIndex_def shardAction_def intro!: appends_intros dest!: bindR_Inr split: if_splits)

lemma appends_notE: "\<not> appends Q a b \<Longrightarrow> appends Q a b \<Longrightarrow> R"
  by simp

lemma handleLocalShard_appends:
  assumes "handleLocalShard dbname colname cprops shardMap serverId st = Inr st'"
  shows "appends shardAction st st'"
  using assms unfolding handleLocalShard_def Let_def
  apply (auto dest!: bindR_Inr split: if_splits)
  apply ((erule appends_notE)?, (erule foldR_appends | rule appends_intros | erule dropIndex_appends | simp add: shardAction_def)+)+
  done


lemma appends_count:
  assumes "appends Q st st'" and "\<And>a. Q a \<Longrightarrow> a \<noteq> x"
  shows "count_list (actions st') x = count_list (actions st) x"
proof -
  from assms(1) obtain new where n: "actions st' = actions st @ new" "list_all Q new"
    by (auto simp: appends_def)
  then have "x \<notin> set new" using assms(2) by (auto simp: list_all_iff)
  then show ?thesis using n by (simp add: count_list_0_iff)
qed

lemma shardAction_not_createDatabase: "shardAction a \<Longrightarrow> a \<noteq> createDatabase d"
  by (auto simp: shardAction_def createDatabase_def)

lemma planServerEntry_appends:
  "planServerEntry cprops ldb dbname colname shname serverId servers db st = Inr st' \<Longrightarrow>
   appends shardAction st st'"
  by (auto simp: planServerEntry_def dest!: bindR_Inr handlePlanShard_appends)

lemma planShard_appends:
  "planShard cprops ldb dbname colname serverId shard st = Inr st' \<Longrightarrow> appends shardAction st st'"
  unfolding planShard_def
  by (auto dest!: bindR_Inr split: if_splits intro: appends_refl
      elim!: foldR_appends[OF _ appends_refl] planServerEntry_appends)

lemma planCollection_appends:
  "planCollection ldb dbname serverId pcol st = Inr st' \<Longrightarrow> appends shardAction st st'"
  unfolding planCollection_def
  by (auto dest!: bindR_Inr elim!: foldR_appends[OF _ appends_refl] planShard_appends)

lemma localShard_appends:
  "localShard dbname shardMap serverId col st = Inr st' \<Longrightarrow> appends shardAction st st'"
  unfolding localShard_def
  by (auto dest!: bindR_Inr split: if_splits intro: appends_refl handleLocalShard_appends)

lemma localDatabase_appends:
  "localDatabase pdbs shardMap serverId db st = Inr st' \<Longrightarrow> appends shardAction st st'"
  unfolding localDatabase_def
  by (auto dest!: bindR_Inr split: if_splits intro: appends_refl
      elim!: foldR_appends[OF _ appends_refl] localShard_appends)

definition countCD :: "string \<Rightarrow> pass \<Rightarrow> nat" where
  "countCD d st = count_list (actions st) (createDatabase d)"

lemma planDatabaseCreate_countCD:
  assumes "hasKey local d = Inr False" and "planDatabaseCreate local pdb st = Inr st'"
  shows "countCD d st' = countCD d st + (if fst pdb = d then 1 else 0)"
  using assms
  by (auto simp: planDatabaseCreate_def countCD_def push_back_def createDatabase_def
      dest!: bindR_Inr split: if_splits)

lemma localDatabaseDrop_countCD:
  "localDatabaseDrop plan ldb st = Inr st' \<Longrightarrow> countCD d st' = countCD d st + 0"
  by (auto simp: localDatabaseDrop_def countCD_def push_back_def createDatabase_def
      dropDatabase_def dest!: bindR_Inr split: if_splits)

lemma appends_mono: "appends Q st st' \<Longrightarrow> (\<And>a. Q a \<Longrightarrow> Q' a) \<Longrightarrow> appends Q' st st'"
  by (auto simp: appends_def list_all_iff)

lemma planDatabase_countCD:
  assumes "hasKey local d = Inr False" and "planDatabase local serverId pdb st = Inr st'"
  shows "countCD d st' = countCD d st + (if fst pdb = d then 1 else 0)"
proof (cases "fst pdb = d")
  case True
  then show ?thesis using assms
    by (auto simp: planDatabase_def bindR_def countCD_def push_back_def)
next
  case False
  have "appends (\<lambda>a. a \<noteq> createDatabase d) st st'"
  proof (cases "hasKey local (fst pdb) = Inr True")
    case True
    then have "appends shardAction st st'" using assms(2)
      by (auto simp: planDatabase_def dest!: bindR_Inr
          elim!: foldR_appends[OF _ appends_refl] planCollection_appends)
    then show ?thesis by (rule appends_mono) (rule shardAction_not_createDatabase)
  next
    case F: False
    then have "st' = push_back (createDatabase (fst pdb)) st" using assms(2)
      by (auto simp: planDatabase_def dest!: bindR_Inr split: if_splits)
    moreover have "createDatabase (fst pdb) \<noteq> createDatabase d"
      using False by (simp add: createDatabase_def)
    ultimately show ?thesis by (simp add: appends_push appends_refl)
  qed
  then have "count_list (actions st') (createDatabase d) = count_list (actions st) (createDatabase d)"
    by (rule appends_count) simp
  then show ?thesis using False by (simp add: countCD_def)
qed

lemma localDatabase_countCD:
  "localDatabase pdbs shardMap serverId db st = Inr st' \<Longrightarrow> countCD d st' = countCD d st + 0"
  unfolding countCD_def
  by (simp, rule appends_count, erule localDatabase_appends, rule shardAction_not_createDatabase)

lemmas diff_defs = diffPlanLocal_def planDatabaseCreate_def localDatabaseDrop_def planDatabase_def
  planCollection_def planShard_def planServerEntry_def handlePlanShard_def createProps_def
  compareRelevantProps_def compareIndexes_def compareIndex_def ensureIndex_def getShardMap_def
  localDatabase_def localShard_def handleLocalShard_def dropIndex_def push_back_def cmp_def

section \<open>The Plan pass: a server listed more than once\<close>

text \<open>
  The steps of the Plan pass never read the pass state: they add to the two sets and
  append to the actions. \<open>stateless f\<close> says that \<open>f\<close> on any state is \<open>f\<close> on the empty
  state \<open>noPass\<close>, merged into the state.
\<close>

definition noPass :: pass where
  "noPass = \<lparr>colis = {}, indis = {}, actions = []\<rparr>"

definition merge :: "pass \<Rightarrow> pass \<Rightarrow> pass" where
  "merge st r = \<lparr>colis = colis st \<union> colis r, indis = indis st \<union> indis r,
                 actions = actions st @ actions r\<rparr>"

definition stateless :: "(pass \<Rightarrow> pass res) \<Rightarrow> bool" where
  "stateless f = (\<forall>st. f st = (case f noPass of Inl x \<Rightarrow> Inl x | Inr r \<Rightarrow> Inr (merge st r)))"

lemma merge_noPass_right: "merge st noPass = st"
  by (simp add: merge_def noPass_def)

lemma merge_noPass_left: "merge noPass st = st"
  by (simp add: merge_def noPass_def)

lemma merge_assoc: "merge (merge a b) c = merge a (merge b c)"
  by (simp add: merge_def Un_assoc)

lemma statelessI:
  "(\<And>st. f st = (case f noPass of Inl x \<Rightarrow> Inl x | Inr r \<Rightarrow> Inr (merge st r))) \<Longrightarrow> stateless f"
  unfolding stateless_def by blast

lemma statelessD:
  "stateless f \<Longrightarrow> f st = (case f noPass of Inl x \<Rightarrow> Inl x | Inr r \<Rightarrow> Inr (merge st r))"
  unfolding stateless_def by blast

lemma stateless_foldR:
  assumes "\<And>x. x \<in> set xs \<Longrightarrow> stateless (f x)"
  shows "stateless (foldR f xs)"
  using assms
proof (induction xs)
  case Nil
  show ?case by (rule statelessI) (simp add: merge_noPass_right)
next
  case (Cons x xs)
  have fx: "stateless (f x)" and rest: "stateless (foldR f xs)" using Cons by auto
  show ?case
  proof (rule statelessI)
    fix st
    show "foldR f (x # xs) st =
          (case foldR f (x # xs) noPass of Inl x \<Rightarrow> Inl x | Inr r \<Rightarrow> Inr (merge st r))"
    proof (cases "f x noPass")
      case (Inl e)
      then show ?thesis using statelessD[OF fx, of st] by simp
    next
      case (Inr r)
      then have a: "f x st = Inr (merge st r)" using statelessD[OF fx, of st] by simp
      show ?thesis
        using statelessD[OF rest, of "merge st r"] statelessD[OF rest, of r] a Inr
        by (auto split: sum.splits simp: merge_assoc)
    qed
  qed
qed

lemma compareIndex_acc:
  "compareIndex shname local pindex (b, ind) =
     (case compareIndex shname local pindex ([], {}) of
        Inl x \<Rightarrow> Inl x | Inr (d, i) \<Rightarrow> Inr (b @ d, ind \<union> i))"
  by (auto simp: compareIndex_def bindR_def split: sum.splits)

lemma compareIndexes_fold_acc:
  "foldR (compareIndex shname local) ps (b, ind) =
     (case foldR (compareIndex shname local) ps ([], {}) of
        Inl x \<Rightarrow> Inl x | Inr (d, i) \<Rightarrow> Inr (b @ d, ind \<union> i))"
proof (induction ps arbitrary: b ind)
  case Nil
  show ?case by simp
next
  case (Cons p ps)
  show ?case
  proof (cases "compareIndex shname local p ([], {})")
    case (Inl e)
    then show ?thesis using compareIndex_acc[of shname local p b ind] by simp
  next
    case (Inr r)
    obtain d i where r: "r = (d, i)" by (cases r)
    have a: "compareIndex shname local p (b, ind) = Inr (b @ d, ind \<union> i)"
      using compareIndex_acc[of shname local p b ind] Inr r by simp
    show ?thesis
      using Cons.IH[of "b @ d" "ind \<union> i"] Cons.IH[of d i] a Inr r
      by (auto split: sum.splits simp: Un_assoc)
  qed
qed

lemma compareIndexes_acc:
  "compareIndexes shname plan local ind =
     (case compareIndexes shname plan local {} of
        Inl x \<Rightarrow> Inl x | Inr (d, i) \<Rightarrow> Inr (d, ind \<union> i))"
  using compareIndexes_fold_acc[of shname local _ "[]" ind]
  by (auto simp: compareIndexes_def bindR_def split: sum.splits)

lemma stateless_ensureIndex: "stateless (ensureIndex dbname shname index)"
  by (rule statelessI)
     (auto simp: ensureIndex_def bindR_def push_back_def merge_def noPass_def split: sum.splits)

lemma stateless_return: "stateless Inr"
  by (rule statelessI) (simp add: merge_noPass_right)

lemma stateless_bindc: "(\<And>x. stateless (f x)) \<Longrightarrow> stateless (\<lambda>st. bindR m (\<lambda>x. f x st))"
  by (rule statelessI, cases m) (auto simp: bindR_def dest: statelessD)

lemma stateless_if: "stateless f \<Longrightarrow> stateless g \<Longrightarrow> stateless (\<lambda>st. if c then f st else g st)"
  by (rule statelessI) (auto dest: statelessD)

lemma stateless_after:
  assumes "stateless g" and "\<And>st. h st = merge st (h noPass)"
  shows "stateless (\<lambda>st. g (h st))"
proof (rule statelessI)
  fix st
  show "g (h st) = (case g (h noPass) of Inl x \<Rightarrow> Inl x | Inr r \<Rightarrow> Inr (merge st r))"
    using statelessD[OF assms(1), of "h st"] statelessD[OF assms(1), of "h noPass"] assms(2)[of st]
    by (cases "g noPass") (simp_all add: merge_assoc)
qed

lemma push_back_merge: "push_back a st = merge st (push_back a noPass)"
  by (simp add: push_back_def merge_def noPass_def)

lemma colis_insert_merge:
  "st\<lparr>colis := insert x (colis st)\<rparr> = merge st (noPass\<lparr>colis := insert x (colis noPass)\<rparr>)"
  by (simp add: merge_def noPass_def)

lemma stateless_indexes:
  "stateless (\<lambda>st. bindR (compareIndexes shname p l (indis st)) (\<lambda>(difference, indis').
      foldR (ensureIndex dbname shname) difference (st\<lparr>indis := indis'\<rparr>)))"
proof (rule statelessI)
  fix st
  have fe: "foldR (ensureIndex dbname shname) d t =
      (case foldR (ensureIndex dbname shname) d noPass of Inl x \<Rightarrow> Inl x | Inr r \<Rightarrow> Inr (merge t r))" for d t
    by (rule statelessD[OF stateless_foldR]) (rule stateless_ensureIndex)
  show "bindR (compareIndexes shname p l (indis st)) (\<lambda>(difference, indis').
          foldR (ensureIndex dbname shname) difference (st\<lparr>indis := indis'\<rparr>)) =
        (case bindR (compareIndexes shname p l (indis noPass)) (\<lambda>(difference, indis').
          foldR (ensureIndex dbname shname) difference (noPass\<lparr>indis := indis'\<rparr>)) of
           Inl x \<Rightarrow> Inl x | Inr r \<Rightarrow> Inr (merge st r))"
  proof (cases "compareIndexes shname p l {}")
    case (Inl e)
    then show ?thesis using compareIndexes_acc[of shname p l "indis st"]
      by (simp add: bindR_def noPass_def)
  next
    case (Inr di)
    obtain d i where di: "di = (d, i)" by (cases di)
    have a: "compareIndexes shname p l (indis st) = Inr (d, indis st \<union> i)"
      using compareIndexes_acc[of shname p l "indis st"] Inr di by simp
    have b: "compareIndexes shname p l (indis noPass) = Inr (d, i)"
      using Inr di by (simp add: noPass_def)
    show ?thesis
    proof (cases "foldR (ensureIndex dbname shname) d noPass")
      case (Inl e)
      then show ?thesis using a b fe[of d "st\<lparr>indis := indis st \<union> i\<rparr>"] fe[of d "noPass\<lparr>indis := i\<rparr>"]
        by (simp add: bindR_def)
    next
      case r: (Inr r)
      have "merge (st\<lparr>indis := indis st \<union> i\<rparr>) r = merge st (merge (noPass\<lparr>indis := i\<rparr>) r)"
        by (simp add: merge_def noPass_def Un_assoc)
      then show ?thesis using a b r fe[of d "st\<lparr>indis := indis st \<union> i\<rparr>"] fe[of d "noPass\<lparr>indis := i\<rparr>"]
        by (simp add: bindR_def)
    qed
  qed
qed


lemma stateless_handlePlanShard:
  "stateless (handlePlanShard db cprops ldb dbname colname shname serverId leaderId)"
proof -
  have leaf_create:
    "stateless (\<lambda>st. Inr (push_back a (st\<lparr>colis := insert shname (colis st)\<rparr>)))" for a
    by (rule stateless_after[OF stateless_return,
          where h = "\<lambda>st. push_back a (st\<lparr>colis := insert shname (colis st)\<rparr>)"])
       (simp add: merge_def noPass_def push_back_def)
  have leaf_s2:
    "stateless (\<lambda>st. Inr (if c then push_back a (st\<lparr>colis := insert shname (colis st)\<rparr>)
                           else st\<lparr>colis := insert shname (colis st)\<rparr>))" for c a
    by (rule stateless_after[OF stateless_return,
          where h = "\<lambda>st. if c then push_back a (st\<lparr>colis := insert shname (colis st)\<rparr>)
                           else st\<lparr>colis := insert shname (colis st)\<rparr>"])
       (simp add: merge_def noPass_def push_back_def)
  have leaf_ix:
    "stateless (\<lambda>st. bindR (compareIndexes shname p l
         (indis (if c then push_back a (st\<lparr>colis := insert shname (colis st)\<rparr>)
                 else st\<lparr>colis := insert shname (colis st)\<rparr>)))
       (\<lambda>(difference, indis').
          foldR (ensureIndex dbname shname) difference
            ((if c then push_back a (st\<lparr>colis := insert shname (colis st)\<rparr>)
              else st\<lparr>colis := insert shname (colis st)\<rparr>)\<lparr>indis := indis'\<rparr>)))" for c a p l
    by (rule stateless_after[OF stateless_indexes,
          where h = "\<lambda>st. if c then push_back a (st\<lparr>colis := insert shname (colis st)\<rparr>)
                           else st\<lparr>colis := insert shname (colis st)\<rparr>"])
       (simp add: merge_def noPass_def push_back_def)
  show ?thesis
    unfolding handlePlanShard_def[abs_def] Let_def
    by (intro leaf_create leaf_s2 leaf_ix stateless_return stateless_bindc stateless_if)
qed


lemma stateless_planServerEntry:
  "stateless (planServerEntry cprops ldb dbname colname shname serverId servers db)"
  unfolding planServerEntry_def[abs_def]
  by (intro stateless_bindc stateless_handlePlanShard)

lemma planServerEntry_other:
  assumes "planServerEntry cprops ldb dbname colname shname serverId servers (VStr serverId) noPass = Inr r"
    and "x \<noteq> serverId"
  shows "planServerEntry cprops ldb dbname colname shname serverId servers (VStr x) st = Inr st"
proof -
  from assms(1) obtain leaderId where "bindR (at0 servers) copyString = Inr leaderId"
    unfolding planServerEntry_def by (blast dest: bindR_Inr)
  then show ?thesis using assms(2)
    by (simp add: planServerEntry_def handlePlanShard_def bindR_def copyString_def)
qed

lemma planServerEntry_match:
  assumes "planServerEntry cprops ldb dbname colname shname serverId servers (VStr serverId) noPass = Inr r"
  shows "planServerEntry cprops ldb dbname colname shname serverId servers (VStr serverId) st =
           Inr (merge st r)"
  using statelessD[OF stateless_planServerEntry, of cprops ldb dbname colname shname serverId servers
      "VStr serverId" st] assms by simp

lemma ensureIndex_colis: "ensureIndex dbname shname index st = Inr st' \<Longrightarrow> colis st' = colis st"
  by (auto simp: ensureIndex_def push_back_def dest!: bindR_Inr)

lemma foldR_ensureIndex_colis:
  "foldR (ensureIndex dbname shname) d st = Inr st' \<Longrightarrow> colis st' = colis st"
  by (erule foldR_invariant[where P = "\<lambda>t. colis t = colis st"]) (simp_all add: ensureIndex_colis)

lemma handlePlanShard_colis:
  assumes "handlePlanShard (VStr serverId) cprops ldb dbname colname shname serverId leaderId st = Inr st'"
  shows "colis st' = insert shname (colis st)"
  using assms unfolding handlePlanShard_def Let_def
  by (auto dest!: bindR_Inr foldR_ensureIndex_colis split: if_splits
      simp: copyString_def push_back_def)

lemma planServerEntry_colis:
  assumes "planServerEntry cprops ldb dbname colname shname serverId servers (VStr serverId) noPass = Inr r"
  shows "colis r = {shname}"
  using assms unfolding planServerEntry_def
  by (auto dest!: bindR_Inr handlePlanShard_colis simp: noPass_def)

text \<open>
  C4, as the code has it. Let \<open>r\<close> be what one match of this server in the server list of
  a shard does to an empty pass state. For a server list \<open>names\<close> of strings the loop over
  the list returns, and it appends the actions of \<open>r\<close> once for every occurrence of
  \<open>serverId\<close> in the list: a server listed twice gets every \<open>CreateCollection\<close>,
  \<open>UpdateCollection\<close> and \<open>EnsureIndex\<close> action of the shard twice. Only the
  shard-membership set absorbs the repetition: the shard name is in it once.
\<close>

theorem repeated_server_repeats_actions:
  assumes "planServerEntry cprops ldb dbname colname shname serverId (VArr (map VStr names))
             (VStr serverId) noPass = Inr r"
  shows "\<exists>st'. planShard cprops ldb dbname colname serverId (shname, VArr (map VStr names)) st = Inr st'
           \<and> actions st' = actions st @ concat (replicate (count_list names serverId) (actions r))
           \<and> colis st' = (if serverId \<in> set names then insert shname (colis st) else colis st)"
proof -
  let ?f = "planServerEntry cprops ldb dbname colname shname serverId (VArr (map VStr names))"
  have loop: "\<exists>st'. foldR ?f (map VStr es) st = Inr st'
           \<and> actions st' = actions st @ concat (replicate (count_list es serverId) (actions r))
           \<and> colis st' = (if serverId \<in> set es then insert shname (colis st) else colis st)" for es st
  proof (induction es arbitrary: st)
    case Nil
    show ?case by simp
  next
    case (Cons e es)
    show ?case
    proof (cases "e = serverId")
      case True
      have "?f (VStr e) st = Inr (merge st r)"
        using planServerEntry_match[OF assms] True by simp
      moreover from Cons[of "merge st r"] obtain st' where
        "foldR ?f (map VStr es) (merge st r) = Inr st'"
        "actions st' = actions (merge st r) @ concat (replicate (count_list es serverId) (actions r))"
        "colis st' = (if serverId \<in> set es then insert shname (colis (merge st r)) else colis (merge st r))"
        by blast
      ultimately show ?thesis using True planServerEntry_colis[OF assms]
        by (auto simp: merge_def)
    next
      case False
      have "?f (VStr e) st = Inr st"
        using planServerEntry_other[OF assms] False by simp
      then show ?thesis using Cons[of st] False by auto
    qed
  qed
  show ?thesis using loop[of names st]
    by (simp add: planShard_def isArray_def ArrayIterator_def bindR_def)
qed


theorem repeated_server_repeats_actions_witness:
  "\<exists>st'. planShard (VObj [(''shards'', VObj [(''s1'', VArr [VStr ''A'', VStr ''A''])])]) (VObj [])
            ''d'' ''c'' ''A'' (''s1'', VArr (map VStr [''A'', ''A''])) noPass = Inr st'
     \<and> actions st' =
        [\<lparr>description = [(''name'', PStr ''CreateCollection''), (''collection'', PStr ''c''),
             (''shard'', PStr ''s1''), (''database'', PStr ''d''), (''leader'', PStr [])],
           properties = Some (VObj [(''shards'', VObj [(''s1'', VArr [VStr ''A'', VStr ''A''])])])\<rparr>,
         \<lparr>description = [(''name'', PStr ''CreateCollection''), (''collection'', PStr ''c''),
             (''shard'', PStr ''s1''), (''database'', PStr ''d''), (''leader'', PStr [])],
           properties = Some (VObj [(''shards'', VObj [(''s1'', VArr [VStr ''A'', VStr ''A''])])])\<rparr>]
     \<and> colis st' = {''s1''}"
  using repeated_server_repeats_actions[of
      "VObj [(''shards'', VObj [(''s1'', VArr [VStr ''A'', VStr ''A''])])]" "VObj []"
      "''d''" "''c''" "''s1''" "''A''" "[''A'', ''A'']"
      "\<lparr>colis = {''s1''}, indis = {}, actions =
        [\<lparr>description = [(''name'', PStr ''CreateCollection''), (''collection'', PStr ''c''),
             (''shard'', PStr ''s1''), (''database'', PStr ''d''), (''leader'', PStr [])],
           properties = Some (VObj [(''shards'', VObj [(''s1'', VArr [VStr ''A'', VStr ''A''])])])\<rparr>]\<rparr>"
      noPass]
  by (simp add: diff_defs slice_defs name_defs noPass_def)

text \<open>
  C4 as stated fails: shard \<open>s1\<close> is planned on \<open>[A, A]\<close>, Local has the database and not the
  shard, and the pass on \<open>A\<close> emits the same \<open>CreateCollection\<close> action twice.
\<close>

theorem repeated_server_duplicates_create:
  "diffPlanLocal
     (VObj [(''Databases'', VObj [(''d'', VObj [])]),
            (''Collections'', VObj [(''d'', VObj [(''c'', VObj [(''shards'',
                VObj [(''s1'', VArr [VStr ''A'', VStr ''A''])])])])])])
     (VObj [(''d'', VObj [])]) ''A'' [] =
   Inr [\<lparr>description = [(''name'', PStr ''CreateCollection''), (''collection'', PStr ''c''),
             (''shard'', PStr ''s1''), (''database'', PStr ''d''), (''leader'', PStr [])],
           properties = Some (VObj [(''shards'', VObj [(''s1'', VArr [VStr ''A'', VStr ''A''])])])\<rparr>,
        \<lparr>description = [(''name'', PStr ''CreateCollection''), (''collection'', PStr ''c''),
             (''shard'', PStr ''s1''), (''database'', PStr ''d''), (''leader'', PStr [])],
           properties = Some (VObj [(''shards'', VObj [(''s1'', VArr [VStr ''A'', VStr ''A''])])])\<rparr>]"
  by (simp add: diff_defs slice_defs name_defs)

section \<open>Index comparison\<close>

lemma normalized_equals_names:
  assumes "set ps = set ls"
  shows "normalized_equals (VArr (map VStr ps)) (VArr (map VStr ls))"
  using assms by (auto simp: list_all_iff list_ex_iff)

lemma findLocalIndex_finds:
  assumes "lindex \<in> set ls"
    and "slice_get lindex TYPE_key = Inr (VStr ty)" and "ty \<noteq> PRIMARY" and "ty \<noteq> EDGE"
    and "slice_get lindex FIELDS = Inr lfields"
    and "normalized_equals pfields lfields"
  shows "findLocalIndex ty pfields ls \<noteq> Inr False"
  using assms(1)
proof (induction ls)
  case Nil
  then show ?case by simp
next
  case (Cons l ls)
  show ?case
  proof (cases "l = lindex")
    case True
    then show ?thesis using assms(2-6) by (simp add: bindR_def copyString_def)
  next
    case False
    then have "findLocalIndex ty pfields ls \<noteq> Inr False" using Cons by auto
    then show ?thesis by (auto simp: bindR_def split: sum.splits)
  qed
qed

text \<open>
  C3. A planned index whose type is neither \<open>primary\<close> nor \<open>edge\<close>, and a local index of
  the same type whose field list is a permutation of the planned field list (field lists
  are arrays of attribute names): whenever \<^verbatim>\<open>compareIndexes\<close> returns, the planned index
  is not in the difference, so no \<open>EnsureIndex\<close> is emitted for it. The order of the fields
  is ignored by the comparison \<open>normalized_equals\<close>, which is taken from the spec.
\<close>

theorem permuted_fields_not_ensured:
  assumes "pindex \<in> set ps" and "lindex \<in> set ls"
    and "slice_get pindex TYPE_key = Inr (VStr ty)" and "slice_get lindex TYPE_key = Inr (VStr ty)"
    and "ty \<noteq> PRIMARY" and "ty \<noteq> EDGE"
    and "slice_get pindex FIELDS = Inr (VArr (map VStr pfields))"
    and "slice_get lindex FIELDS = Inr (VArr (map VStr lfields))"
    and "mset lfields = mset pfields"
    and "compareIndexes shname (VArr ps) (VArr ls) ind = Inr (difference, ind')"
  shows "pindex \<notin> set difference"
proof -
  have eq: "normalized_equals (VArr (map VStr pfields)) (VArr (map VStr lfields))"
    using assms(9) by (intro normalized_equals_names) (metis mset_eq_setD)
  have found: "findLocalIndex ty (VArr (map VStr pfields)) ls \<noteq> Inr False"
    by (rule findLocalIndex_finds[OF assms(2,4,5,6,8) eq])
  have step: "pindex \<notin> set (fst t')"
    if "compareIndex shname (VArr ls) p t = Inr t'" and "pindex \<notin> set (fst t)" for p t t'
  proof (cases "p = pindex")
    case True
    then show ?thesis using that assms(3,5,6,7) found
      by (cases t) (auto simp: compareIndex_def bindR_def copyString_def isArray_def
          ArrayIterator_def split: sum.splits if_splits)
  next
    case False
    then show ?thesis using that
      by (cases t) (auto simp: compareIndex_def bindR_def split: sum.splits if_splits)
  qed
  from assms(10) have "foldR (compareIndex shname (VArr ls)) ps ([], ind) = Inr (difference, ind')"
    by (simp add: compareIndexes_def isArray_def ArrayIterator_def bindR_def)
  then have "pindex \<notin> set (fst (difference, ind'))"
    by (rule foldR_invariant[where P = "\<lambda>t. pindex \<notin> set (fst t)"]) (simp_all add: step)
  then show ?thesis by simp
qed

theorem permuted_fields_not_ensured_witness:
  "compareIndexes ''s1''
     (VArr [VObj [(''id'', VStr ''7''), (''type'', VStr ''hash''), (''fields'', VArr [VStr ''x'', VStr ''y''])],
            VObj [(''id'', VStr ''8''), (''type'', VStr ''skiplist''), (''fields'', VArr [VStr ''z''])]])
     (VArr [VObj [(''id'', VStr ''9''), (''type'', VStr ''hash''), (''fields'', VArr [VStr ''y'', VStr ''x''])]])
     {} = Inr ([VObj [(''id'', VStr ''8''), (''type'', VStr ''skiplist''), (''fields'', VArr [VStr ''z''])]], {''s1/7'', ''s1/8''})
   \<and> VObj [(''id'', VStr ''7''), (''type'', VStr ''hash''), (''fields'', VArr [VStr ''x'', VStr ''y''])]
       \<notin> set [VObj [(''id'', VStr ''8''), (''type'', VStr ''skiplist''), (''fields'', VArr [VStr ''z''])]]"
proof -
  have e: "compareIndexes ''s1''
     (VArr [VObj [(''id'', VStr ''7''), (''type'', VStr ''hash''), (''fields'', VArr [VStr ''x'', VStr ''y''])],
            VObj [(''id'', VStr ''8''), (''type'', VStr ''skiplist''), (''fields'', VArr [VStr ''z''])]])
     (VArr [VObj [(''id'', VStr ''9''), (''type'', VStr ''hash''), (''fields'', VArr [VStr ''y'', VStr ''x''])]])
     {} = Inr ([VObj [(''id'', VStr ''8''), (''type'', VStr ''skiplist''), (''fields'', VArr [VStr ''z''])]], {''s1/7'', ''s1/8''})"
    by (auto simp add: compareIndexes_def compareIndex_def slice_defs name_defs)
  have "VObj [(''id'', VStr ''7''), (''type'', VStr ''hash''), (''fields'', VArr [VStr ''x'', VStr ''y''])]
       \<notin> set [VObj [(''id'', VStr ''8''), (''type'', VStr ''skiplist''), (''fields'', VArr [VStr ''z''])]]"
    by (rule permuted_fields_not_ensured[OF _ _ _ _ _ _ _ _ _ e,
          where lindex = "VObj [(''id'', VStr ''9''), (''type'', VStr ''hash''), (''fields'', VArr [VStr ''y'', VStr ''x''])]"
            and ty = "''hash''" and pfields = "[''x'', ''y'']" and lfields = "[''y'', ''x'']"])
       (simp_all add: slice_defs name_defs)
  with e show ?thesis by simp
qed

section \<open>Plan against Current against Local: \<^verbatim>\<open>syncReplicatedShardsWithLeaders\<close>\<close>

text \<open>
  \<^verbatim>\<open>indexOf<std::string>\<close> of unnamed/part_001: the position of the first string entry
  equal to \<open>val\<close>, or \<open>-1\<close>, also for a slice that is not an array.
\<close>

fun indexOf_from :: "vpack list \<Rightarrow> string \<Rightarrow> nat \<Rightarrow> int" where
  "indexOf_from [] val counter = - 1"
| "indexOf_from (entry # rest) val counter =
     (if entry = VStr val then int counter else indexOf_from rest val (Suc counter))"

definition indexOf :: "vpack \<Rightarrow> string \<Rightarrow> int" where
  "indexOf slice val = (case slice of VArr entries \<Rightarrow> indexOf_from entries val 0 | _ \<Rightarrow> - 1)"

definition synchronizeShard :: "string \<Rightarrow> string \<Rightarrow> string \<Rightarrow> string \<Rightarrow> ActionDescription" where
  "synchronizeShard dbname colname shname leader =
     \<lparr>description = [(NAME, PStr ''SynchronizeShard''), (DATABASE, PStr dbname),
        (COLLECTION, PStr colname), (SHARD, PStr shname), (LEADER, PStr leader)],
      properties = None\<rparr>"

text \<open>The body of the loop over the shards of a planned collection.\<close>

definition syncShard ::
  "vpack \<Rightarrow> vpack \<Rightarrow> vpack \<Rightarrow> string \<Rightarrow> string \<Rightarrow> string \<Rightarrow> string \<times> vpack \<Rightarrow>
   ActionDescription list \<Rightarrow> ActionDescription list res" where
  "syncShard pdbs cdbs local serverId dbname colname pshrd acts =
     (let shname = fst pshrd in
      bindR (hasKey_path local [dbname, shname]) (\<lambda>isLocal.
        if \<not> isLocal then Inr acts else
      bindR (hasKey_path cdbs [dbname, colname, shname]) (\<lambda>inCurrent.
        if \<not> inCurrent then Inr acts else
      bindR (hasKey_path pdbs [dbname, colname, SHARDS, shname]) (\<lambda>hasPlanServers.
        if \<not> hasPlanServers then Inr acts else
      bindR (get_path pdbs [dbname, colname, SHARDS, shname]) (\<lambda>pservers.
      bindR (hasKey_path cdbs [dbname, colname, shname, SERVERS]) (\<lambda>hasCurrentServers.
        if \<not> hasCurrentServers then Inr acts else
      bindR (get_path cdbs [dbname, colname, shname, SERVERS]) (\<lambda>cservers.
        if indexOf pservers serverId \<le> 0 then Inr acts
        else if indexOf cservers serverId > 0 then Inr acts
        else bindR (bindR (at0 pservers) copyString) (\<lambda>leader.
               Inr (acts @ [synchronizeShard dbname colname shname leader])))))))))"

definition syncCollection ::
  "vpack \<Rightarrow> vpack \<Rightarrow> vpack \<Rightarrow> string \<Rightarrow> string \<Rightarrow> string \<times> vpack \<Rightarrow>
   ActionDescription list \<Rightarrow> ActionDescription list res" where
  "syncCollection pdbs cdbs local serverId dbname pcol acts =
     bindR (bindR (slice_get cdbs dbname) (\<lambda>cdb. hasKey cdb (fst pcol))) (\<lambda>inCurrent.
       if inCurrent then
         bindR (bindR (slice_get (snd pcol) SHARDS) ObjectIterator) (\<lambda>shards.
           foldR (syncShard pdbs cdbs local serverId dbname (fst pcol)) shards acts)
       else Inr acts)"

definition syncDatabase ::
  "vpack \<Rightarrow> vpack \<Rightarrow> vpack \<Rightarrow> string \<Rightarrow> string \<times> vpack \<Rightarrow>
   ActionDescription list \<Rightarrow> ActionDescription list res" where
  "syncDatabase pdbs cdbs local serverId pdb acts =
     bindR (bindR (hasKey local (fst pdb)) (\<lambda>isLocal.
              if isLocal then hasKey cdbs (fst pdb) else Inr False)) (\<lambda>both.
       if both then
         bindR (ObjectIterator (snd pdb)) (\<lambda>pcols.
           foldR (syncCollection pdbs cdbs local serverId (fst pdb)) pcols acts)
       else Inr acts)"

definition syncReplicatedShardsWithLeaders ::
  "vpack \<Rightarrow> vpack \<Rightarrow> vpack \<Rightarrow> string \<Rightarrow> ActionDescription list \<Rightarrow> ActionDescription list res" where
  "syncReplicatedShardsWithLeaders plan current local serverId acts =
     bindR (slice_get plan COLLECTIONS) (\<lambda>pdbs.
     bindR (slice_get current COLLECTIONS) (\<lambda>cdbs.
     bindR (ObjectIterator pdbs) (\<lambda>dbs.
       foldR (syncDatabase pdbs cdbs local serverId) dbs acts)))"

lemmas sync_defs = syncReplicatedShardsWithLeaders_def syncDatabase_def syncCollection_def
  syncShard_def synchronizeShard_def indexOf_def

text \<open>
  An action is for a shard when it carries the shard's database, collection and shard
  name. What a loop adds to the actions for one shard is what its bodies add, in order.
\<close>

definition forShard :: "string \<Rightarrow> string \<Rightarrow> string \<Rightarrow> ActionDescription \<Rightarrow> bool" where
  "forShard db col sh a =
     (map_of (description a) DATABASE = Some (PStr db)
      \<and> map_of (description a) COLLECTION = Some (PStr col)
      \<and> map_of (description a) SHARD = Some (PStr sh))"

lemma foldR_filter:
  assumes "foldR f xs s = Inr s'"
    and "\<And>x t t'. x \<in> set xs \<Longrightarrow> f x t = Inr t' \<Longrightarrow> filter P t' = filter P t @ w x"
  shows "filter P s' = filter P s @ concat (map w xs)"
  using assms
proof (induction xs arbitrary: s)
  case Nil
  then show ?case by simp
next
  case (Cons x xs)
  from Cons.prems(1) obtain t where t: "f x s = Inr t" and r: "foldR f xs t = Inr s'"
    by (auto split: sum.splits)
  have "filter P t = filter P s @ w x" using Cons.prems(2) t by auto
  moreover have "filter P s' = filter P t @ concat (map w xs)"
    using Cons.IH[OF r] Cons.prems(2) by auto
  ultimately show ?case by simp
qed

lemma concat_key_once:
  "distinct (map fst xs) \<Longrightarrow> k \<in> fst ` set xs \<Longrightarrow>
     concat (map (\<lambda>x. if fst x = k then new else []) xs) = new"
proof (induction xs)
  case Nil then show ?case by simp
next
  case (Cons x xs)
  show ?case
  proof (cases "fst x = k")
    case True
    then have "k \<notin> fst ` set xs" using Cons.prems(1) by auto
    then have "concat (map (\<lambda>x. if fst x = k then new else []) xs) = []"
      by (induction xs) auto
    then show ?thesis using True by simp
  next
    case False
    then show ?thesis using Cons by auto
  qed
qed

lemma distinct_key_value:
  "distinct (map fst xs) \<Longrightarrow> (k, v) \<in> set xs \<Longrightarrow> x \<in> set xs \<Longrightarrow> fst x = k \<Longrightarrow> x = (k, v)"
  by (metis distinct_map inj_onD fst_conv)

lemma lookupKey_distinct:
  "distinct (map fst xs) \<Longrightarrow> (k, v) \<in> set xs \<Longrightarrow> lookupKey xs k = v"
  by (simp add: lookupKey_def)

lemma syncShard_cases:
  assumes "syncShard pdbs cdbs local serverId dbname colname pshrd acts = Inr acts'"
  shows "acts' = acts \<or>
         (\<exists>leader. acts' = acts @
            [\<lparr>description = [(NAME, PStr ''SynchronizeShard''), (DATABASE, PStr dbname),
                (COLLECTION, PStr colname), (SHARD, PStr (fst pshrd)), (LEADER, PStr leader)],
              properties = None\<rparr>])"
  using assms unfolding syncShard_def Let_def synchronizeShard_def
  by (auto dest!: bindR_Inr split: if_splits)

lemma syncShard_other:
  assumes "syncShard pdbs cdbs local serverId dbname colname pshrd acts = Inr acts'"
    and "dbname \<noteq> db \<or> colname \<noteq> col \<or> fst pshrd \<noteq> sh"
  shows "filter (forShard db col sh) acts' = filter (forShard db col sh) acts @ []"
  using syncShard_cases[OF assms(1)] assms(2)
  by (auto simp: forShard_def name_defs)

lemma syncShard_hit:
  assumes "hasKey_path local [db, sh] = Inr True"
    and "hasKey_path cdbs [db, col, sh] = Inr True"
    and "get_path pdbs [db, col, SHARDS, sh] = Inr (VArr (map VStr pnames))"
    and "get_path cdbs [db, col, sh, SERVERS] = Inr cservers"
  shows "syncShard pdbs cdbs local serverId db col (sh, servers) acts =
           Inr (if cservers \<noteq> VNone \<and> 0 < indexOf (VArr (map VStr pnames)) serverId
                   \<and> \<not> 0 < indexOf cservers serverId
                then acts @
                  [\<lparr>description = [(NAME, PStr ''SynchronizeShard''), (DATABASE, PStr db),
                      (COLLECTION, PStr col), (SHARD, PStr sh), (LEADER, PStr (hd pnames))],
                    properties = None\<rparr>]
                else acts)"
proof (cases pnames)
  case Nil
  then show ?thesis using assms
    by (simp add: syncShard_def hasKey_path_def bindR_def indexOf_def)
next
  case (Cons leader followers)
  then show ?thesis using assms
    by (simp add: syncShard_def synchronizeShard_def hasKey_path_def bindR_def at0_def copyString_def)
qed

lemma syncShard_step:
  assumes "hasKey_path local [db, sh] = Inr True"
    and "hasKey_path cdbs [db, col, sh] = Inr True"
    and "get_path pdbs [db, col, SHARDS, sh] = Inr (VArr (map VStr pnames))"
    and "get_path cdbs [db, col, sh, SERVERS] = Inr cservers"
    and "syncShard pdbs cdbs local serverId db col pshrd acts = Inr acts'"
  shows "filter (forShard db col sh) acts' = filter (forShard db col sh) acts @
           (if fst pshrd = sh
            then (if cservers \<noteq> VNone \<and> 0 < indexOf (VArr (map VStr pnames)) serverId
                     \<and> \<not> 0 < indexOf cservers serverId
                  then [\<lparr>description = [(NAME, PStr ''SynchronizeShard''), (DATABASE, PStr db),
                           (COLLECTION, PStr col), (SHARD, PStr sh), (LEADER, PStr (hd pnames))],
                         properties = None\<rparr>]
                  else [])
            else [])"
proof (cases "fst pshrd = sh")
  case True
  then have p: "pshrd = (sh, snd pshrd)" by (cases pshrd) simp
  show ?thesis
    using assms(5) syncShard_hit[OF assms(1-4), of serverId "snd pshrd" acts] True p
    by (auto simp: forShard_def name_defs)
next
  case False
  then show ?thesis using syncShard_other[OF assms(5), of db col sh] by simp
qed

lemma syncCollection_other:
  assumes "syncCollection pdbs cdbs local serverId dbname pcol acts = Inr acts'"
    and "dbname \<noteq> db \<or> fst pcol \<noteq> col"
  shows "filter (forShard db col sh) acts' = filter (forShard db col sh) acts @ []"
proof (cases "bindR (slice_get cdbs dbname) (\<lambda>cdb. hasKey cdb (fst pcol)) = Inr True")
  case True
  then obtain shards where
    f: "foldR (syncShard pdbs cdbs local serverId dbname (fst pcol)) shards acts = Inr acts'"
    using assms(1) unfolding syncCollection_def by (auto simp: bindR_def split: sum.splits)
  have "filter (forShard db col sh) acts' =
          filter (forShard db col sh) acts @ concat (map (\<lambda>x. []) shards)"
    by (rule foldR_filter[OF f]) (use assms(2) in \<open>auto dest: syncShard_other\<close>)
  then show ?thesis by simp
next
  case False
  then show ?thesis using assms(1) unfolding syncCollection_def
    by (auto simp: bindR_def split: sum.splits if_splits)
qed

lemma syncDatabase_other:
  assumes "syncDatabase pdbs cdbs local serverId pdb acts = Inr acts'"
    and "fst pdb \<noteq> db"
  shows "filter (forShard db col sh) acts' = filter (forShard db col sh) acts @ []"
proof (cases "bindR (hasKey local (fst pdb)) (\<lambda>isLocal.
                if isLocal then hasKey cdbs (fst pdb) else Inr False) = Inr True")
  case True
  then obtain pcols where
    f: "foldR (syncCollection pdbs cdbs local serverId (fst pdb)) pcols acts = Inr acts'"
    using assms(1) unfolding syncDatabase_def by (auto simp: bindR_def split: sum.splits)
  have "filter (forShard db col sh) acts' =
          filter (forShard db col sh) acts @ concat (map (\<lambda>x. []) pcols)"
    by (rule foldR_filter[OF f]) (use assms(2) in \<open>auto dest: syncCollection_other\<close>)
  then show ?thesis by simp
next
  case False
  then show ?thesis using assms(1) unfolding syncDatabase_def
    by (auto simp: bindR_def split: sum.splits if_splits)
qed

lemma hasKey_path2:
  "hasKey_path s [k, k'] = Inr True \<Longrightarrow> hasKey s k = Inr True"
  by (auto simp: hasKey_path_def hasKey_def bindR_def split: sum.splits if_splits)

lemma hasKey_path3:
  "hasKey_path s [k, k', k''] = Inr True \<Longrightarrow>
     hasKey s k = Inr True \<and> bindR (slice_get s k) (\<lambda>v. hasKey v k') = Inr True"
  by (auto simp: hasKey_path_def hasKey_def bindR_def split: sum.splits if_splits)

lemma slice_get_object: "slice_get s k = Inr v \<Longrightarrow> isObject s"
  by (auto simp: slice_get_def isObject_def split: vpack.splits)

lemma planned_servers_path:
  assumes "distinct (map fst pdbs)" and "(db, VObj pcols) \<in> set pdbs"
    and "distinct (map fst pcols)" and "(col, pcol) \<in> set pcols"
    and "slice_get pcol SHARDS = Inr (VObj shards)"
    and "distinct (map fst shards)" and "(sh, pservers) \<in> set shards"
  shows "get_path (VObj pdbs) [db, col, SHARDS, sh] = Inr pservers"
proof -
  have 1: "slice_get (VObj pdbs) db = Inr (VObj pcols)"
    using lookupKey_distinct[OF assms(1,2)] by (simp add: slice_get_def)
  have 2: "slice_get (VObj pcols) col = Inr pcol"
    using lookupKey_distinct[OF assms(3,4)] by (simp add: slice_get_def)
  have 3: "isObject pcol" "pcol \<noteq> VNone"
    using slice_get_object[OF assms(5)] by (auto simp: isObject_def)
  have 4: "slice_get (VObj shards) sh = Inr pservers"
    using lookupKey_distinct[OF assms(6,7)] by (simp add: slice_get_def)
  show ?thesis using 1 2 3 4 assms(5) by (simp add: isObject_def)
qed

text \<open>
  C7, as the code has it. A shard of Plan's collections (the objects of Plan with
  distinct keys, the shard's planned servers a list of server names) that Current's
  collections report and that Local holds: whenever \<^verbatim>\<open>syncReplicatedShardsWithLeaders\<close>
  returns, the actions it emits for that shard are exactly one \<open>SynchronizeShard\<close> action
  carrying the database, the collection, the shard and, as leader, the first planned
  server, when Current's entry for the shard has a \<open>servers\<close> attribute, this node's
  position in the planned list is greater than 0 and its position in Current's list is
  not; in every other case there is no action for that shard.
\<close>

theorem sync_emits_one_action_for_lagging_follower:
  assumes "slice_get plan COLLECTIONS = Inr (VObj pdbs)"
    and "distinct (map fst pdbs)" and "(db, VObj pcols) \<in> set pdbs"
    and "distinct (map fst pcols)" and "(col, pcol) \<in> set pcols"
    and "slice_get pcol SHARDS = Inr (VObj shards)"
    and "distinct (map fst shards)" and "(sh, VArr (map VStr pnames)) \<in> set shards"
    and "slice_get current COLLECTIONS = Inr cdbs"
    and "hasKey_path cdbs [db, col, sh] = Inr True"
    and "get_path cdbs [db, col, sh, SERVERS] = Inr cservers"
    and "hasKey_path local [db, sh] = Inr True"
    and "syncReplicatedShardsWithLeaders plan current local serverId [] = Inr acts"
  shows "filter (forShard db col sh) acts =
           (if cservers \<noteq> VNone \<and> 0 < indexOf (VArr (map VStr pnames)) serverId
               \<and> \<not> 0 < indexOf cservers serverId
            then [\<lparr>description = [(NAME, PStr ''SynchronizeShard''), (DATABASE, PStr db),
                     (COLLECTION, PStr col), (SHARD, PStr sh), (LEADER, PStr (hd pnames))],
                   properties = None\<rparr>]
            else [])"
proof -
  let ?P = "forShard db col sh"
  let ?R = "if cservers \<noteq> VNone \<and> 0 < indexOf (VArr (map VStr pnames)) serverId
               \<and> \<not> 0 < indexOf cservers serverId
            then [\<lparr>description = [(NAME, PStr ''SynchronizeShard''), (DATABASE, PStr db),
                     (COLLECTION, PStr col), (SHARD, PStr sh), (LEADER, PStr (hd pnames))],
                   properties = None\<rparr>]
            else []"
  have pp: "get_path (VObj pdbs) [db, col, SHARDS, sh] = Inr (VArr (map VStr pnames))"
    by (rule planned_servers_path[OF assms(2-8)])
  have shard_step: "filter ?P t' = filter ?P t @ (if fst x = sh then ?R else [])"
    if "syncShard (VObj pdbs) cdbs local serverId db col x t = Inr t'" for x t t'
    by (rule syncShard_step[OF assms(12) assms(10) pp assms(11) that])
  have col_step: "filter ?P t' = filter ?P t @ (if fst y = col then ?R else [])"
    if y: "y \<in> set pcols" and s: "syncCollection (VObj pdbs) cdbs local serverId db y t = Inr t'"
    for y t t'
  proof (cases "fst y = col")
    case True
    then have yv: "y = (col, pcol)" using distinct_key_value[OF assms(4,5) y] by simp
    have "bindR (slice_get cdbs db) (\<lambda>v. hasKey v col) = Inr True"
      using hasKey_path3[OF assms(10)] by simp
    then have f: "foldR (syncShard (VObj pdbs) cdbs local serverId db col) shards t = Inr t'"
      using s yv assms(6) by (simp add: syncCollection_def ObjectIterator_def bindR_def)
    have "filter ?P t' = filter ?P t @ concat (map (\<lambda>x. if fst x = sh then ?R else []) shards)"
      by (rule foldR_filter[OF f]) (rule shard_step)
    moreover have "sh \<in> fst ` set shards" using assms(8) by force
    ultimately show ?thesis using concat_key_once[OF assms(7), of sh ?R] True by simp
  next
    case False
    then show ?thesis using syncCollection_other[OF s, of db col sh] by simp
  qed
  have db_step: "filter ?P t' = filter ?P t @ (if fst z = db then ?R else [])"
    if z: "z \<in> set pdbs" and s: "syncDatabase (VObj pdbs) cdbs local serverId z t = Inr t'"
    for z t t'
  proof (cases "fst z = db")
    case True
    then have zv: "z = (db, VObj pcols)" using distinct_key_value[OF assms(2,3) z] by simp
    have "hasKey local db = Inr True" "hasKey cdbs db = Inr True"
      using hasKey_path2[OF assms(12)] hasKey_path3[OF assms(10)] by simp_all
    then have f: "foldR (syncCollection (VObj pdbs) cdbs local serverId db) pcols t = Inr t'"
      using s zv by (simp add: syncDatabase_def ObjectIterator_def bindR_def)
    have "filter ?P t' = filter ?P t @ concat (map (\<lambda>y. if fst y = col then ?R else []) pcols)"
      by (rule foldR_filter[OF f]) (rule col_step)
    moreover have "col \<in> fst ` set pcols" using assms(5) by force
    ultimately show ?thesis using concat_key_once[OF assms(4), of col ?R] True by simp
  next
    case False
    then show ?thesis using syncDatabase_other[OF s, of db col sh] by simp
  qed
  have f: "foldR (syncDatabase (VObj pdbs) cdbs local serverId) pdbs [] = Inr acts"
    using assms(13,1,9)
    by (simp add: syncReplicatedShardsWithLeaders_def ObjectIterator_def bindR_def)
  have "filter ?P acts = filter ?P [] @ concat (map (\<lambda>z. if fst z = db then ?R else []) pdbs)"
    by (rule foldR_filter[OF f]) (rule db_step)
  moreover have "db \<in> fst ` set pdbs" using assms(3) by force
  ultimately show ?thesis using concat_key_once[OF assms(2), of db ?R] by simp
qed

theorem sync_emits_one_action_for_lagging_follower_witness:
  "syncReplicatedShardsWithLeaders
     (VObj [(''Collections'', VObj [
        (''d'', VObj [(''c'', VObj [(''shards'',
           VObj [(''s1'', VArr [VStr ''A'', VStr ''B'']), (''s2'', VArr [VStr ''A'', VStr ''B''])])])]),
        (''e'', VObj [(''c2'', VObj [(''shards'', VObj [(''s3'', VArr [VStr ''A'', VStr ''B''])])])])])])
     (VObj [(''Collections'', VObj [
        (''d'', VObj [(''c'', VObj [(''s1'', VObj [(''servers'', VArr [VStr ''A''])]),
                                    (''s2'', VObj [(''servers'', VArr [VStr ''A'', VStr ''B''])])])]),
        (''e'', VObj [(''c2'', VObj [(''s3'', VObj [(''servers'', VArr [VStr ''A''])])])])])])
     (VObj [(''d'', VObj [(''s1'', VObj [(''leader'', VStr ''A'')]),
                          (''s2'', VObj [(''leader'', VStr ''A'')])]),
            (''e'', VObj [(''s3'', VObj [(''leader'', VStr ''A'')])])])
     ''B'' [] =
     Inr [\<lparr>description = [(''name'', PStr ''SynchronizeShard''), (''database'', PStr ''d''),
            (''collection'', PStr ''c''), (''shard'', PStr ''s1''), (''leader'', PStr ''A'')],
          properties = None\<rparr>,
        \<lparr>description = [(''name'', PStr ''SynchronizeShard''), (''database'', PStr ''e''),
            (''collection'', PStr ''c2''), (''shard'', PStr ''s3''), (''leader'', PStr ''A'')],
          properties = None\<rparr>]
   \<and> filter (forShard ''d'' ''c'' ''s1'')
       [\<lparr>description = [(''name'', PStr ''SynchronizeShard''), (''database'', PStr ''d''),
            (''collection'', PStr ''c''), (''shard'', PStr ''s1''), (''leader'', PStr ''A'')],
          properties = None\<rparr>,
        \<lparr>description = [(''name'', PStr ''SynchronizeShard''), (''database'', PStr ''e''),
            (''collection'', PStr ''c2''), (''shard'', PStr ''s3''), (''leader'', PStr ''A'')],
          properties = None\<rparr>] =
       [\<lparr>description = [(''name'', PStr ''SynchronizeShard''), (''database'', PStr ''d''),
            (''collection'', PStr ''c''), (''shard'', PStr ''s1''), (''leader'', PStr ''A'')],
          properties = None\<rparr>]
   \<and> filter (forShard ''d'' ''c'' ''s2'')
       [\<lparr>description = [(''name'', PStr ''SynchronizeShard''), (''database'', PStr ''d''),
            (''collection'', PStr ''c''), (''shard'', PStr ''s1''), (''leader'', PStr ''A'')],
          properties = None\<rparr>,
        \<lparr>description = [(''name'', PStr ''SynchronizeShard''), (''database'', PStr ''e''),
            (''collection'', PStr ''c2''), (''shard'', PStr ''s3''), (''leader'', PStr ''A'')],
          properties = None\<rparr>] = []"
proof -
  let ?plan = "(VObj [(''Collections'', VObj [
        (''d'', VObj [(''c'', VObj [(''shards'',
           VObj [(''s1'', VArr [VStr ''A'', VStr ''B'']), (''s2'', VArr [VStr ''A'', VStr ''B''])])])]),
        (''e'', VObj [(''c2'', VObj [(''shards'', VObj [(''s3'', VArr [VStr ''A'', VStr ''B''])])])])])])"
  let ?cur = "(VObj [(''Collections'', VObj [
        (''d'', VObj [(''c'', VObj [(''s1'', VObj [(''servers'', VArr [VStr ''A''])]),
                                    (''s2'', VObj [(''servers'', VArr [VStr ''A'', VStr ''B''])])])]),
        (''e'', VObj [(''c2'', VObj [(''s3'', VObj [(''servers'', VArr [VStr ''A''])])])])])])"
  let ?local = "(VObj [(''d'', VObj [(''s1'', VObj [(''leader'', VStr ''A'')]),
                          (''s2'', VObj [(''leader'', VStr ''A'')])]),
            (''e'', VObj [(''s3'', VObj [(''leader'', VStr ''A'')])])])"
  let ?acts = "[\<lparr>description = [(''name'', PStr ''SynchronizeShard''), (''database'', PStr ''d''),
            (''collection'', PStr ''c''), (''shard'', PStr ''s1''), (''leader'', PStr ''A'')],
          properties = None\<rparr>,
        \<lparr>description = [(''name'', PStr ''SynchronizeShard''), (''database'', PStr ''e''),
            (''collection'', PStr ''c2''), (''shard'', PStr ''s3''), (''leader'', PStr ''A'')],
          properties = None\<rparr>]"
  have e: "syncReplicatedShardsWithLeaders ?plan ?cur ?local ''B'' [] = Inr ?acts"
    by (simp add: sync_defs slice_defs name_defs)
  have s1: "filter (forShard ''d'' ''c'' ''s1'') ?acts =
       [\<lparr>description = [(''name'', PStr ''SynchronizeShard''), (''database'', PStr ''d''),
            (''collection'', PStr ''c''), (''shard'', PStr ''s1''), (''leader'', PStr ''A'')],
          properties = None\<rparr>]"
    using sync_emits_one_action_for_lagging_follower[where plan = ?plan and current = ?cur
        and local = ?local and serverId = "''B''" and acts = ?acts
        and db = "''d''" and col = "''c''" and sh = "''s1''" and pnames = "[''A'', ''B'']"
        and cservers = "VArr [VStr ''A'']", OF _ _ _ _ _ _ _ _ _ _ _ _ e]
    by (simp add: sync_defs slice_defs name_defs)
  have s2: "filter (forShard ''d'' ''c'' ''s2'') ?acts = []"
    using sync_emits_one_action_for_lagging_follower[where plan = ?plan and current = ?cur
        and local = ?local and serverId = "''B''" and acts = ?acts
        and db = "''d''" and col = "''c''" and sh = "''s2''" and pnames = "[''A'', ''B'']"
        and cservers = "VArr [VStr ''A'', VStr ''B'']", OF _ _ _ _ _ _ _ _ _ _ _ _ e]
    by (simp add: sync_defs slice_defs name_defs)
  from e s1 s2 show ?thesis by blast
qed

text \<open>
  C7 as stated fails: the shard \<open>s1\<close> is in Plan's collections, in Current's collections
  and in Local, this node is at position 1 of the planned list, and Current's entry has
  no \<open>servers\<close> attribute, so this node has no position greater than 0 there. The code
  logs that the shard has no servers substructure in Current and goes on to the next
  shard: no action is emitted.
\<close>

theorem sync_skips_shard_without_current_servers:
  "syncReplicatedShardsWithLeaders
     (VObj [(''Collections'', VObj [(''d'', VObj [(''c'', VObj [(''shards'',
         VObj [(''s1'', VArr [VStr ''A'', VStr ''B''])])])])])])
     (VObj [(''Collections'', VObj [(''d'', VObj [(''c'', VObj [(''s1'',
         VObj [(''error'', VBool False)])])])])])
     (VObj [(''d'', VObj [(''s1'', VObj [(''leader'', VStr ''A'')])])])
     ''B'' [] = Inr []
   \<and> hasKey_path (VObj [(''d'', VObj [(''c'', VObj [(''s1'', VObj [(''error'', VBool False)])])])])
       [''d'', ''c'', ''s1''] = Inr True
   \<and> hasKey_path (VObj [(''d'', VObj [(''s1'', VObj [(''leader'', VStr ''A'')])])]) [''d'', ''s1'']
       = Inr True
   \<and> get_path (VObj [(''d'', VObj [(''c'', VObj [(''s1'', VObj [(''error'', VBool False)])])])])
       [''d'', ''c'', ''s1'', ''servers''] = Inr VNone
   \<and> indexOf (VArr [VStr ''A'', VStr ''B'']) ''B'' = 1
   \<and> indexOf VNone ''B'' = - 1"
  by (simp add: sync_defs slice_defs name_defs)

section \<open>Local against Current: \<^verbatim>\<open>reportInCurrent\<close> (unnamed/part_001)\<close>

text \<open>
  The storage engine is a collaborator: \<^verbatim>\<open>Databases::lookup\<close> gives a database or null, the
  database gives a collection or null, the collection gives its followers. \<open>vocbase_id\<close>
  is the text \<^verbatim>\<open>std::to_string(vocbase->id())\<close>.
\<close>

record LogicalCollection =
  followers :: "string list"

record vocbase =
  vocbase_id :: string
  vocbase_name :: string
  lookupCollection :: "string \<Rightarrow> LogicalCollection option"

type_synonym Databases = "string \<Rightarrow> vocbase option"

fun mapR :: "('a \<Rightarrow> 'b res) \<Rightarrow> 'a list \<Rightarrow> 'b list res" where
  "mapR f [] = Inr []"
| "mapR f (x # xs) =
     (case f x of Inl e \<Rightarrow> Inl e
      | Inr y \<Rightarrow> (case mapR f xs of Inl e \<Rightarrow> Inl e | Inr ys \<Rightarrow> Inr (y # ys)))"

definition removeSelectivityEstimate :: "vpack \<Rightarrow> vpack res" where
  "removeSelectivityEstimate index =
     bindR (ObjectIterator index) (\<lambda>kvs.
       Inr (VObj (filter (\<lambda>(key, v). key \<noteq> SELECTIVITY_ESTIMATE) kvs)))"

definition assembleLocalCollectioInfo ::
  "Databases \<Rightarrow> vpack \<Rightarrow> string \<Rightarrow> string \<Rightarrow> string \<Rightarrow> vpack res" where
  "assembleLocalCollectioInfo lookup info database shard ourselves =
     (case lookup database of
        None \<Rightarrow> Inr (VObj [])
      | Some vocbase \<Rightarrow>
          (case lookupCollection vocbase shard of
             None \<Rightarrow> Inr (VObj [])
           | Some collection \<Rightarrow>
               bindR (slice_get info INDEXES) (\<lambda>ixs.
               bindR (if isArray ixs
                      then bindR (ArrayIterator ixs) (mapR removeSelectivityEstimate)
                      else Inr []) (\<lambda>indexes.
                 Inr (VObj [(ERROR, VBool False), (ERROR_MESSAGE, VStr []), (ERROR_NUM, VNum 0),
                            (INDEXES, VArr indexes),
                            (SERVERS, VArr (VStr ourselves # map VStr (followers collection)))])))))"

fun equivalent_loop :: "(string \<times> vpack) list \<Rightarrow> vpack \<Rightarrow> bool res" where
  "equivalent_loop [] current = Inr True"
| "equivalent_loop (i # rest) current =
     (case slice_get current (fst i) of
        Inl e \<Rightarrow> Inl e
      | Inr c \<Rightarrow> if \<not> normalized_equals (snd i) c then Inr False
                 else equivalent_loop rest current)"

definition equivalent :: "vpack \<Rightarrow> vpack \<Rightarrow> bool res" where
  "equivalent local current = bindR (ObjectIterator local) (\<lambda>kvs. equivalent_loop kvs current)"

definition assembleLocalDatabaseInfo :: "Databases \<Rightarrow> string \<Rightarrow> vpack" where
  "assembleLocalDatabaseInfo lookup database =
     (case lookup database of
        None \<Rightarrow> VObj []
      | Some vocbase \<Rightarrow>
          VObj [(ERROR, VBool False), (ERROR_NUM, VNum 0), (ERROR_MESSAGE, VStr []),
                (ID, VStr (vocbase_id vocbase)), (''name'', VStr (vocbase_name vocbase))])"

text \<open>
  The report is the builder \<^verbatim>\<open>report\<close>, as the list of the entries added to the object
  that is open in it. The builder is the caller's: what was added before an exception
  stays in it. A step gives the report as it leaves it and the fault that ended it, if any.
\<close>

type_synonym report = "(string \<times> vpack) list"

definition VP_SET :: vpack where "VP_SET = VStr ''set''"
definition VP_DELETE :: vpack where "VP_DELETE = VStr ''delete''"

definition setOp :: "string \<Rightarrow> vpack \<Rightarrow> string \<times> vpack" where
  "setOp path payload = (path, VObj [(OP, VP_SET), (''payload'', payload)])"

definition deleteOp :: "string \<Rightarrow> string \<times> vpack" where
  "deleteOp path = (path, VObj [(OP, VP_DELETE)])"

definition attempt :: "report res \<Rightarrow> report \<Rightarrow> report \<times> fault option" where
  "attempt m report =
     (case m of Inl e \<Rightarrow> (report, Some e) | Inr new \<Rightarrow> (report @ new, None))"

definition thenK :: "report \<times> fault option \<Rightarrow> (report \<Rightarrow> report \<times> fault option) \<Rightarrow> report \<times> fault option" where
  "thenK r f = (case snd r of Some e \<Rightarrow> r | None \<Rightarrow> f (fst r))"

fun foldK :: "('a \<Rightarrow> report \<Rightarrow> report \<times> fault option) \<Rightarrow> 'a list \<Rightarrow> report \<Rightarrow> report \<times> fault option" where
  "foldK f [] report = (report, None)"
| "foldK f (x # xs) report =
     (case f x report of (report', Some e) \<Rightarrow> (report', Some e)
      | (report', None) \<Rightarrow> foldK f xs report')"

text \<open>\<^verbatim>\<open>std::string::at(0)\<close> throws \<^verbatim>\<open>std::out_of_range\<close> on an empty string.\<close>

definition string_at0 :: "string \<Rightarrow> char res" where
  "string_at0 s = (case s of [] \<Rightarrow> Inl Exception | c # _ \<Rightarrow> Inr c)"

text \<open>The new server list of a shard this node has resigned from: the first entry marked.\<close>

fun resignedServers :: "bool \<Rightarrow> vpack list \<Rightarrow> vpack list res" where
  "resignedServers isFront [] = Inr []"
| "resignedServers isFront (i # rest) =
     (case copyString i of
        Inl e \<Rightarrow> Inl e
      | Inr s \<Rightarrow> (case resignedServers False rest of
                    Inl e \<Rightarrow> Inl e
                  | Inr ns \<Rightarrow> Inr (VStr (if \<not> isFront then s else UNDERSCORE @ s) # ns)))"

text \<open>What the body of the loop over the local shards of a database adds to the report.\<close>

definition reportShard ::
  "Databases \<Rightarrow> vpack \<Rightarrow> string \<Rightarrow> string \<Rightarrow> string \<times> vpack \<Rightarrow> report res" where
  "reportShard lookup cur serverId dbName shard =
     (let shName = fst shard; shSlice = snd shard in
      bindR (string_at0 shName) (\<lambda>c.
        if c = CHR ''_'' then Inr [] else
      bindR (bindR (slice_get shSlice PLAN_ID) copyString) (\<lambda>colName.
      bindR (bindR (slice_get shSlice LEADER) copyString) (\<lambda>leader.
        if leader = [] then
          bindR (assembleLocalCollectioInfo lookup shSlice dbName shName serverId) (\<lambda>localCollectionInfo.
            if isEmptyObject localCollectionInfo then Inr [] else
            (let cp = [COLLECTIONS, dbName, colName, shName] in
             bindR (hasKey_path cur cp) (\<lambda>inCurrent.
             bindR (if \<not> inCurrent then Inr True
                    else bindR (bindR (get_path cur cp) (equivalent localCollectionInfo))
                           (\<lambda>eq. Inr (\<not> eq))) (\<lambda>write.
               if write
               then Inr [setOp (CURRENT_COLLECTIONS @ dbName @ ''/'' @ colName @ ''/'' @ shName)
                           localCollectionInfo]
               else Inr []))))
        else
          (let servers = [COLLECTIONS, dbName, colName, shName, SERVERS] in
           bindR (hasKey_path cur servers) (\<lambda>has.
             if has then
               bindR (get_path cur servers) (\<lambda>s.
               bindR (if isArray s
                      then bindR (bindR (at0 s) copyString) (\<lambda>first. Inr (first = serverId))
                      else Inr False) (\<lambda>wasLeader.
                 if wasLeader then
                   bindR (bindR (ArrayIterator s) (resignedServers True)) (\<lambda>ns.
                     Inr [setOp (CURRENT_COLLECTIONS @ dbName @ ''/'' @ colName @ ''/'' @ shName
                                 @ ''/'' @ SERVERS) (VArr ns)])
                 else Inr []))
             else Inr []))))))"

definition reportDatabaseEntry :: "Databases \<Rightarrow> vpack \<Rightarrow> string \<Rightarrow> string \<Rightarrow> report res" where
  "reportDatabaseEntry lookup cur serverId dbName =
     bindR (hasKey_path cur [''Databases'', dbName, serverId]) (\<lambda>inCurrent.
       if \<not> inCurrent then
         (let localDatabaseInfo = assembleLocalDatabaseInfo lookup dbName in
          if \<not> isEmptyObject localDatabaseInfo
          then Inr [setOp (CURRENT_DATABASES @ dbName @ ''/'' @ serverId) localDatabaseInfo]
          else Inr [])
       else Inr [])"

definition reportDatabase ::
  "Databases \<Rightarrow> vpack \<Rightarrow> string \<Rightarrow> string \<times> vpack \<Rightarrow> report \<Rightarrow> report \<times> fault option" where
  "reportDatabase lookup cur serverId database report =
     thenK (attempt (reportDatabaseEntry lookup cur serverId (fst database)) report) (\<lambda>report1.
       case ObjectIterator (snd database) of
         Inl e \<Rightarrow> (report1, Some e)
       | Inr shards \<Rightarrow>
           foldK (\<lambda>shard. attempt (reportShard lookup cur serverId (fst database) shard))
             shards report1)"

text \<open>The backward pass: entries of Current that nothing local or planned stands behind.\<close>

definition staleShard :: "vpack \<Rightarrow> vpack \<Rightarrow> string \<Rightarrow> string \<Rightarrow> string \<Rightarrow> string \<times> vpack \<Rightarrow> report res" where
  "staleShard local shardMap serverId dbName colName shard =
     bindR (hasKey (snd shard) SERVERS) (\<lambda>has.
       if has then
         bindR (slice_get (snd shard) SERVERS) (\<lambda>servers.
         bindR (case servers of
                  VArr (first # _) \<Rightarrow>
                    bindR (copyString first) (\<lambda>leader.
                      if leader = serverId then
                        bindR (hasKey_path local [dbName, fst shard]) (\<lambda>isLocal.
                          if \<not> isLocal
                          then bindR (hasKey shardMap (fst shard)) (\<lambda>planned. Inr (\<not> planned))
                          else Inr False)
                      else Inr False)
                | _ \<Rightarrow> Inr False) (\<lambda>stale.
           if stale
           then Inr [deleteOp (CURRENT_COLLECTIONS @ dbName @ ''/'' @ colName @ ''/'' @ fst shard)]
           else Inr []))
       else Inr [])"

definition staleCollection ::
  "vpack \<Rightarrow> vpack \<Rightarrow> string \<Rightarrow> string \<Rightarrow> string \<times> vpack \<Rightarrow> report \<Rightarrow> report \<times> fault option" where
  "staleCollection local shardMap serverId dbName collection report =
     (case ObjectIterator (snd collection) of
        Inl e \<Rightarrow> (report, Some e)
      | Inr shards \<Rightarrow>
          foldK (\<lambda>shard. attempt (staleShard local shardMap serverId dbName (fst collection) shard))
            shards report)"

definition staleDatabase ::
  "vpack \<Rightarrow> vpack \<Rightarrow> vpack \<Rightarrow> string \<Rightarrow> string \<times> vpack \<Rightarrow> report \<Rightarrow> report \<times> fault option" where
  "staleDatabase local pdbs shardMap serverId database report =
     (case bindR (hasKey local (fst database)) (\<lambda>isLocal.
             if \<not> isLocal then bindR (hasKey pdbs (fst database)) (\<lambda>planned. Inr (\<not> planned))
             else Inr False) of
        Inl e \<Rightarrow> (report, Some e)
      | Inr True \<Rightarrow> (report @ [deleteOp (CURRENT_DATABASES @ fst database @ ''/'' @ serverId)], None)
      | Inr False \<Rightarrow>
          (case ObjectIterator (snd database) of
             Inl e \<Rightarrow> (report, Some e)
           | Inr collections \<Rightarrow>
               foldK (staleCollection local shardMap serverId (fst database)) collections report))"

definition reportInCurrent ::
  "Databases \<Rightarrow> vpack \<Rightarrow> vpack \<Rightarrow> vpack \<Rightarrow> string \<Rightarrow> report \<Rightarrow> report \<times> fault option" where
  "reportInCurrent lookup plan cur local serverId report =
     (case ObjectIterator local of
        Inl e \<Rightarrow> (report, Some e)
      | Inr databases \<Rightarrow>
          thenK (foldK (reportDatabase lookup cur serverId) databases report) (\<lambda>report1.
            case bindR (slice_get cur COLLECTIONS) (\<lambda>cdbs.
                 bindR (slice_get plan COLLECTIONS) (\<lambda>pdbs.
                 bindR (getShardMap pdbs) (\<lambda>shardMap.
                 bindR (ObjectIterator cdbs) (\<lambda>cdatabases. Inr (pdbs, shardMap, cdatabases))))) of
              Inl e \<Rightarrow> (report1, Some e)
            | Inr (pdbs, shardMap, cdatabases) \<Rightarrow>
                foldK (staleDatabase local pdbs shardMap serverId) cdatabases report1))"

lemmas report_defs = reportInCurrent_def staleDatabase_def staleCollection_def staleShard_def
  reportDatabase_def reportDatabaseEntry_def reportShard_def
  string_at0_def attempt_def thenK_def setOp_def deleteOp_def VP_SET_def VP_DELETE_def
  assembleLocalDatabaseInfo_def equivalent_def assembleLocalCollectioInfo_def
  removeSelectivityEstimate_def getShardMap_def OP_def ERROR_def ERROR_NUM_def ERROR_MESSAGE_def
  CURRENT_COLLECTIONS_def CURRENT_DATABASES_def SELECTIVITY_ESTIMATE_def

section \<open>The Current reporter: equivalence is one-directional\<close>

lemma equivalent_loop_subset:
  "list_all (\<lambda>i. normalized_equals (snd i) (lookupKey c (fst i))) l \<Longrightarrow>
   equivalent_loop l (VObj c) = Inr True"
  by (induction l) (simp_all add: slice_get_def)

text \<open>
  C10. \<^verbatim>\<open>equivalent\<close> only walks the keys of the local snapshot: when every member of the
  freshly assembled snapshot \<open>info\<close> has a normalized-equal value under the same key in the
  entry \<open>centry\<close> that Current holds for the shard, \<^verbatim>\<open>equivalent\<close> is true, whatever
  further keys \<open>centry\<close> has; and for such a non-system leader shard the loop body of
  \<^verbatim>\<open>reportInCurrent\<close> adds nothing to the report (no \<open>set\<close> operation).
\<close>

theorem superset_entry_is_equivalent:
  assumes "string_at0 shName = Inr ch" and "ch \<noteq> CHR ''_''"
    and "slice_get shSlice PLAN_ID = Inr (VStr colName)"
    and "slice_get shSlice LEADER = Inr (VStr [])"
    and "assembleLocalCollectioInfo lookup shSlice dbName shName serverId = Inr (VObj info)"
    and "info \<noteq> []"
    and "get_path cur [COLLECTIONS, dbName, colName, shName] = Inr (VObj centry)"
    and "list_all (\<lambda>i. normalized_equals (snd i) (lookupKey centry (fst i))) info"
  shows "equivalent (VObj info) (VObj centry) = Inr True
       \<and> reportShard lookup cur serverId dbName (shName, shSlice) = Inr []"
proof -
  have e: "equivalent (VObj info) (VObj centry) = Inr True"
    using equivalent_loop_subset[OF assms(8)]
    by (simp add: equivalent_def ObjectIterator_def bindR_def)
  then show ?thesis using assms(1-7)
    by (simp add: reportShard_def Let_def bindR_def copyString_def isEmptyObject_def
        hasKey_path_def)
qed

definition storage1 :: Databases where
  "storage1 = (\<lambda>d. if d = ''d''
     then Some \<lparr>vocbase_id = ''1'', vocbase_name = ''d'',
                 lookupCollection = (\<lambda>s. if s = ''s1'' then Some \<lparr>followers = [''B'']\<rparr> else None)\<rparr>
     else None)"

theorem superset_entry_is_equivalent_witness:
  "equivalent
     (VObj [(''error'', VBool False), (''errorMessage'', VStr []), (''errorNum'', VNum 0),
            (''indexes'', VArr [VObj [(''id'', VStr ''0''), (''type'', VStr ''primary'')]]),
            (''servers'', VArr [VStr ''A'', VStr ''B''])])
     (VObj [(''error'', VBool False), (''errorMessage'', VStr []), (''errorNum'', VNum 0),
            (''indexes'', VArr [VObj [(''id'', VStr ''0''), (''type'', VStr ''primary'')]]),
            (''servers'', VArr [VStr ''A'', VStr ''B'']), (''extra'', VNum 7)]) = Inr True
   \<and> reportShard storage1
     (VObj [(''Collections'', VObj [(''d'', VObj [(''c'', VObj [(''s1'',
        VObj [(''error'', VBool False), (''errorMessage'', VStr []), (''errorNum'', VNum 0),
              (''indexes'', VArr [VObj [(''id'', VStr ''0''), (''type'', VStr ''primary'')]]),
              (''servers'', VArr [VStr ''A'', VStr ''B'']), (''extra'', VNum 7)])])])])])
     ''A'' ''d''
     (''s1'', VObj [(''planId'', VStr ''c''), (''leader'', VStr []),
        (''indexes'', VArr [VObj [(''id'', VStr ''0''), (''type'', VStr ''primary''),
                                  (''selectivityEstimate'', VNum 1)]])]) = Inr []"
  using superset_entry_is_equivalent[of "''s1''" "CHR ''s''"
     "VObj [(''planId'', VStr ''c''), (''leader'', VStr []),
        (''indexes'', VArr [VObj [(''id'', VStr ''0''), (''type'', VStr ''primary''),
                                  (''selectivityEstimate'', VNum 1)]])]"
     "''c''" storage1 "''d''" "''A''"
     "[(''error'', VBool False), (''errorMessage'', VStr []), (''errorNum'', VNum 0),
            (''indexes'', VArr [VObj [(''id'', VStr ''0''), (''type'', VStr ''primary'')]]),
            (''servers'', VArr [VStr ''A'', VStr ''B''])]"
     "VObj [(''Collections'', VObj [(''d'', VObj [(''c'', VObj [(''s1'',
        VObj [(''error'', VBool False), (''errorMessage'', VStr []), (''errorNum'', VNum 0),
              (''indexes'', VArr [VObj [(''id'', VStr ''0''), (''type'', VStr ''primary'')]]),
              (''servers'', VArr [VStr ''A'', VStr ''B'']), (''extra'', VNum 7)])])])])]"
     "[(''error'', VBool False), (''errorMessage'', VStr []), (''errorNum'', VNum 0),
              (''indexes'', VArr [VObj [(''id'', VStr ''0''), (''type'', VStr ''primary'')]]),
              (''servers'', VArr [VStr ''A'', VStr ''B'']), (''extra'', VNum 7)]"]
  by (simp add: report_defs slice_defs name_defs storage1_def)

section \<open>The revision in arangod/Cluster/Maintenance.cpp\<close>

text \<open>
  The sources hold a second revision of the reconciler, arangod/Cluster/Maintenance.cpp,
  the only one with \<^verbatim>\<open>handleChange\<close>. Its functions carry the suffix \<open>_cpp\<close> where they
  differ from unnamed/part_001: no resignation, no \<open>DropIndex\<close>, no tests with
  \<^verbatim>\<open>isArray\<close>, no backward pass of the reporter, and no early return after a failed
  lookup. \<open>Maintainer\<close> assertions (\<^verbatim>\<open>TRI_ASSERT\<close>) are not compiled into a release build
  and are left out.
\<close>

definition compareIndex_cpp ::
  "string \<Rightarrow> vpack \<Rightarrow> vpack \<Rightarrow> vpack list \<times> string set \<Rightarrow> (vpack list \<times> string set) res" where
  "compareIndex_cpp shname local pindex bi =
     (case bi of (builder, ind) \<Rightarrow>
        bindR (bindR (slice_get pindex TYPE_key) copyString) (\<lambda>ptype.
          if ptype = PRIMARY \<or> ptype = EDGE then Inr (builder, ind)
          else
            bindR (slice_get pindex FIELDS) (\<lambda>pfields.
            bindR (bindR (slice_get pindex ID) copyString) (\<lambda>pid.
            bindR (bindR (ArrayIterator local) (findLocalIndex ptype pfields)) (\<lambda>found.
              Inr (if \<not> found then builder @ [pindex] else builder,
                   insert (shname @ ''/'' @ pid) ind))))))"

definition compareIndexes_cpp ::
  "string \<Rightarrow> vpack \<Rightarrow> vpack \<Rightarrow> string set \<Rightarrow> (vpack list \<times> string set) res" where
  "compareIndexes_cpp shname plan local ind =
     bindR (ArrayIterator plan) (\<lambda>ps. foldR (compareIndex_cpp shname local) ps ([], ind))"

definition handlePlanShard_cpp ::
  "vpack \<Rightarrow> vpack \<Rightarrow> vpack \<Rightarrow> string \<Rightarrow> string \<Rightarrow> string \<Rightarrow> string \<Rightarrow> string \<Rightarrow> pass \<Rightarrow> pass res" where
  "handlePlanShard_cpp db cprops ldb dbname colname shname serverId leaderId st =
     (let shouldBeLeader = (serverId = leaderId) in
      bindR (copyString db) (\<lambda>dbs.
        if dbs = serverId then
          (let st1 = st\<lparr>colis := insert shname (colis st)\<rparr> in
           bindR (createProps cprops) (\<lambda>props.
           bindR (hasKey ldb shname) (\<lambda>have.
             if have then
               bindR (slice_get ldb shname) (\<lambda>lcol.
               bindR (compareRelevantProps cprops lcol) (\<lambda>properties.
               bindR (if properties \<noteq> VObj []
                      then bindR (bindR (slice_get lcol LEADER) copyString) (\<lambda>localLeader.
                             Inr (push_back
                               \<lparr>description = [(NAME, PStr ''UpdateCollection''),
                                  (DATABASE, PStr dbname), (COLLECTION, PStr shname),
                                  (LEADER, PStr (if shouldBeLeader then [] else leaderId)),
                                  (LOCAL_LEADER, PStr localLeader)],
                                properties = Some properties\<rparr> st1))
                      else Inr st1) (\<lambda>st2.
               bindR (hasKey cprops INDEXES) (\<lambda>hasIndexes.
                 if hasIndexes then
                   bindR (slice_get cprops INDEXES) (\<lambda>pindexes.
                   bindR (slice_get lcol INDEXES) (\<lambda>lindexes.
                   bindR (compareIndexes_cpp shname pindexes lindexes (indis st2)) (\<lambda>(difference, indis').
                     foldR (ensureIndex dbname shname) difference (st2\<lparr>indis := indis'\<rparr>))))
                 else Inr st2))))
             else
               Inr (push_back
                 \<lparr>description = [(NAME, PStr ''CreateCollection''), (COLLECTION, PStr colname),
                    (SHARD, PStr shname), (DATABASE, PStr dbname),
                    (LEADER, PStr (if shouldBeLeader then [] else leaderId))],
                  properties = Some props\<rparr> st1))))
        else Inr st))"

definition dropIndex_cpp :: "vpack \<Rightarrow> pass \<Rightarrow> pass res" where
  "dropIndex_cpp index st =
     bindR (bindR (slice_get index TYPE_key) copyString) (\<lambda>ty.
       if ty \<noteq> PRIMARY \<and> ty \<noteq> EDGE then
         bindR (bindR (slice_get index ID) copyString) (\<lambda>iid.
           if iid \<in> indis st then Inr (st\<lparr>indis := indis st - {iid}\<rparr>) else Inr st)
       else Inr st)"

definition handleLocalShard_cpp :: "string \<Rightarrow> string \<Rightarrow> vpack \<Rightarrow> pass \<Rightarrow> pass res" where
  "handleLocalShard_cpp dbname colname cprops st =
     (let drop = (colis st = {} \<or> colname \<notin> colis st) in
      if drop then
        Inr (push_back
          \<lparr>description = [(NAME, PStr ''DropCollection''), (DATABASE, PStr dbname),
             (COLLECTION, PStr colname)],
           properties = None\<rparr> st)
      else
        (let st1 = st\<lparr>colis := colis st - {colname}\<rparr> in
         bindR (hasKey cprops INDEXES) (\<lambda>hasIndexes.
           if hasIndexes then
             bindR (bindR (slice_get cprops INDEXES) ArrayIterator) (\<lambda>is.
               foldR dropIndex_cpp is st1)
           else Inr st1)))"

definition planServerEntry_cpp ::
  "vpack \<Rightarrow> vpack \<Rightarrow> string \<Rightarrow> string \<Rightarrow> string \<Rightarrow> string \<Rightarrow> vpack \<Rightarrow> vpack \<Rightarrow> pass \<Rightarrow> pass res" where
  "planServerEntry_cpp cprops ldb dbname colname shname serverId servers db st =
     bindR (bindR (at0 servers) copyString) (\<lambda>leaderId.
       handlePlanShard_cpp db cprops ldb dbname colname shname serverId leaderId st)"

definition planShard_cpp ::
  "vpack \<Rightarrow> vpack \<Rightarrow> string \<Rightarrow> string \<Rightarrow> string \<Rightarrow> string \<times> vpack \<Rightarrow> pass \<Rightarrow> pass res" where
  "planShard_cpp cprops ldb dbname colname serverId shard st =
     bindR (ArrayIterator (snd shard)) (\<lambda>dbs.
       foldR (planServerEntry_cpp cprops ldb dbname colname (fst shard) serverId (snd shard)) dbs st)"

definition planCollection_cpp ::
  "vpack \<Rightarrow> string \<Rightarrow> string \<Rightarrow> string \<times> vpack \<Rightarrow> pass \<Rightarrow> pass res" where
  "planCollection_cpp ldb dbname serverId pcol st =
     bindR (bindR (slice_get (snd pcol) SHARDS) ObjectIterator) (\<lambda>shards.
       foldR (planShard_cpp (snd pcol) ldb dbname (fst pcol) serverId) shards st)"

definition planDatabase_cpp :: "vpack \<Rightarrow> string \<Rightarrow> string \<times> vpack \<Rightarrow> pass \<Rightarrow> pass res" where
  "planDatabase_cpp local serverId pdb st =
     bindR (hasKey local (fst pdb)) (\<lambda>have.
       if have then
         bindR (slice_get local (fst pdb)) (\<lambda>ldb.
         bindR (ObjectIterator (snd pdb)) (\<lambda>pcols.
           foldR (planCollection_cpp ldb (fst pdb) serverId) pcols st))
       else Inr (push_back (createDatabase (fst pdb)) st))"

definition localShard_cpp :: "string \<Rightarrow> string \<times> vpack \<Rightarrow> pass \<Rightarrow> pass res" where
  "localShard_cpp dbname col st =
     bindR (front (fst col)) (\<lambda>c.
       if c \<noteq> CHR ''_'' then handleLocalShard_cpp dbname (fst col) (snd col) st
       else Inr st)"

definition localDatabase_cpp :: "vpack \<Rightarrow> string \<times> vpack \<Rightarrow> pass \<Rightarrow> pass res" where
  "localDatabase_cpp pdbs db st =
     bindR (hasKey pdbs (fst db)) (\<lambda>planned.
       if planned then
         bindR (ObjectIterator (snd db)) (\<lambda>cols. foldR (localShard_cpp (fst db)) cols st)
       else Inr st)"

definition diffPlanLocal_cpp ::
  "vpack \<Rightarrow> vpack \<Rightarrow> string \<Rightarrow> ActionDescription list \<Rightarrow> ActionDescription list res" where
  "diffPlanLocal_cpp plan local serverId acts =
     bindR (bindR (slice_get plan ''Databases'') ObjectIterator) (\<lambda>pdbs0.
     bindR (foldR (planDatabaseCreate local) pdbs0 \<lparr>colis = {}, indis = {}, actions = acts\<rparr>) (\<lambda>st1.
     bindR (ObjectIterator local) (\<lambda>ldbs.
     bindR (foldR (localDatabaseDrop plan) ldbs st1) (\<lambda>st2.
     bindR (slice_get plan ''Collections'') (\<lambda>pdbs.
     bindR (ObjectIterator pdbs) (\<lambda>pcols.
     bindR (foldR (planDatabase_cpp local serverId) pcols st2) (\<lambda>st3.
     bindR (foldR (localDatabase_cpp pdbs) ldbs st3) (\<lambda>st4.
       Inr (actions st4)))))))))"

text \<open>
  \<^verbatim>\<open>arangodb::Result\<close>, of which the reconciler only asks \<^verbatim>\<open>ok()\<close>. The maintenance
  feature is the queue of the actions handed to \<^verbatim>\<open>addAction\<close>.
\<close>

datatype Result = ResultOk | ResultError

definition ok :: "Result \<Rightarrow> bool" where
  "ok r = (r = ResultOk)"

definition executePlan_cpp ::
  "vpack \<Rightarrow> vpack \<Rightarrow> vpack \<Rightarrow> string \<Rightarrow> ActionDescription list \<Rightarrow> (Result \<times> ActionDescription list) res" where
  "executePlan_cpp plan current local serverId feature =
     bindR (diffPlanLocal_cpp plan local serverId []) (\<lambda>acts. Inr (ResultOk, feature @ acts))"

text \<open>
  A phase gives the entry it adds to the report, the feature's queue, and its
  \<^verbatim>\<open>Result\<close> or the undefined behaviour that ended it; an exception does not leave a
  phase.
\<close>

definition phaseOne_cpp ::
  "vpack \<Rightarrow> vpack \<Rightarrow> vpack \<Rightarrow> string \<Rightarrow> ActionDescription list \<Rightarrow>
   (string \<times> vpack) \<times> ActionDescription list \<times> Result res" where
  "phaseOne_cpp plan cur local serverId feature =
     (case executePlan_cpp plan cur local serverId feature of
        Inl Exception \<Rightarrow> ((''phaseOne'', VObj []), feature, Inr ResultOk)
      | Inl Undefined \<Rightarrow> ((''phaseOne'', VObj []), feature, Inl Undefined)
      | Inr (result, feature') \<Rightarrow> ((''phaseOne'', VObj []), feature', Inr result))"

definition assembleLocalCollectioInfo_cpp ::
  "Databases \<Rightarrow> vpack \<Rightarrow> string \<Rightarrow> string \<Rightarrow> string \<Rightarrow> vpack res" where
  "assembleLocalCollectioInfo_cpp lookup info database shard ourselves =
     (case lookup database of
        None \<Rightarrow> Inl Undefined
      | Some vocbase \<Rightarrow>
          bindR (bindR (bindR (slice_get info INDEXES) ArrayIterator)
                   (mapR removeSelectivityEstimate)) (\<lambda>indexes.
            case lookupCollection vocbase shard of
              None \<Rightarrow> Inl Undefined
            | Some collection \<Rightarrow>
                Inr (VObj [(ERROR, VBool False), (ERROR_MESSAGE, VStr []), (ERROR_NUM, VNum 0),
                           (INDEXES, VArr indexes),
                           (SERVERS, VArr (VStr ourselves # map VStr (followers collection)))])))"

definition reportShard_cpp ::
  "Databases \<Rightarrow> vpack \<Rightarrow> string \<Rightarrow> string \<Rightarrow> string \<times> vpack \<Rightarrow> report res" where
  "reportShard_cpp lookup cur serverId dbName shard =
     (let shName = fst shard; shSlice = snd shard in
      bindR (string_at0 shName) (\<lambda>c.
        if c = CHR ''_'' then Inr [] else
      bindR (bindR (slice_get shSlice PLAN_ID) copyString) (\<lambda>colName.
      bindR (bindR (slice_get shSlice LEADER) copyString) (\<lambda>leader.
        if leader = [] then
          bindR (assembleLocalCollectioInfo_cpp lookup shSlice dbName shName serverId) (\<lambda>localCollectionInfo.
            (let cp = [''Collections'', dbName, colName, shName] in
             bindR (hasKey_path cur cp) (\<lambda>inCurrent.
             bindR (if \<not> inCurrent then Inr True
                    else bindR (bindR (get_path cur cp) (equivalent localCollectionInfo))
                           (\<lambda>eq. Inr (\<not> eq))) (\<lambda>write.
               if write
               then Inr [setOp (CURRENT_COLLECTIONS @ dbName @ ''/'' @ colName @ ''/'' @ shName)
                           localCollectionInfo]
               else Inr []))))
        else
          (let servers = [''Collections'', dbName, colName, shName, SERVERS] in
           bindR (hasKey_path cur servers) (\<lambda>has.
             if has then
               bindR (get_path cur servers) (\<lambda>s.
               bindR (bindR (at0 s) copyString) (\<lambda>first.
                 if first = serverId then
                   bindR (bindR (ArrayIterator s) (resignedServers True)) (\<lambda>ns.
                     Inr [setOp (CURRENT_COLLECTIONS @ dbName @ ''/'' @ colName @ ''/'' @ shName
                                 @ ''/'' @ SERVERS) (VArr ns)])
                 else Inr []))
             else Inr []))))))"

definition reportDatabase_cpp ::
  "Databases \<Rightarrow> vpack \<Rightarrow> string \<Rightarrow> string \<times> vpack \<Rightarrow> report \<Rightarrow> report \<times> fault option" where
  "reportDatabase_cpp lookup cur serverId database report =
     thenK (attempt (reportDatabaseEntry lookup cur serverId (fst database)) report) (\<lambda>report1.
       case ObjectIterator (snd database) of
         Inl e \<Rightarrow> (report1, Some e)
       | Inr shards \<Rightarrow>
           foldK (\<lambda>shard. attempt (reportShard_cpp lookup cur serverId (fst database) shard))
             shards report1)"

definition reportInCurrent_cpp ::
  "Databases \<Rightarrow> vpack \<Rightarrow> vpack \<Rightarrow> vpack \<Rightarrow> string \<Rightarrow> report \<Rightarrow> report \<times> fault option" where
  "reportInCurrent_cpp lookup plan cur local serverId report =
     (case ObjectIterator local of
        Inl e \<Rightarrow> (report, Some e)
      | Inr databases \<Rightarrow> foldK (reportDatabase_cpp lookup cur serverId) databases report)"

definition indexOf_cpp :: "vpack \<Rightarrow> string \<Rightarrow> int res" where
  "indexOf_cpp slice val = bindR (ArrayIterator slice) (\<lambda>entries. Inr (indexOf_from entries val 0))"

definition syncShard_cpp ::
  "vpack \<Rightarrow> vpack \<Rightarrow> vpack \<Rightarrow> string \<Rightarrow> string \<Rightarrow> string \<Rightarrow> string \<times> vpack \<Rightarrow>
   ActionDescription list \<Rightarrow> ActionDescription list res" where
  "syncShard_cpp pdbs cdbs local serverId dbname colname pshrd acts =
     (let shname = fst pshrd in
      bindR (hasKey_path local [dbname, shname]) (\<lambda>isLocal.
        if \<not> isLocal then Inr acts else
      bindR (hasKey_path cdbs [dbname, colname, shname]) (\<lambda>inCurrent.
        if \<not> inCurrent then Inr acts else
      bindR (hasKey_path pdbs [dbname, colname, SHARDS, shname]) (\<lambda>hasPlanServers.
        if \<not> hasPlanServers then Inr acts else
      bindR (get_path pdbs [dbname, colname, SHARDS, shname]) (\<lambda>pservers.
      bindR (hasKey_path cdbs [dbname, colname, shname, SERVERS]) (\<lambda>hasCurrentServers.
        if \<not> hasCurrentServers then Inr acts else
      bindR (get_path cdbs [dbname, colname, shname, SERVERS]) (\<lambda>cservers.
      bindR (indexOf_cpp pservers serverId) (\<lambda>planned.
        if planned \<le> 0 then Inr acts else
      bindR (indexOf_cpp cservers serverId) (\<lambda>inSync.
        if inSync > 0 then Inr acts
        else bindR (bindR (at0 pservers) copyString) (\<lambda>leader.
               Inr (acts @ [synchronizeShard dbname colname shname leader])))))))))))"

definition syncCollection_cpp ::
  "vpack \<Rightarrow> vpack \<Rightarrow> vpack \<Rightarrow> string \<Rightarrow> string \<Rightarrow> string \<times> vpack \<Rightarrow>
   ActionDescription list \<Rightarrow> ActionDescription list res" where
  "syncCollection_cpp pdbs cdbs local serverId dbname pcol acts =
     bindR (bindR (slice_get cdbs dbname) (\<lambda>cdb. hasKey cdb (fst pcol))) (\<lambda>inCurrent.
       if inCurrent then
         bindR (bindR (slice_get (snd pcol) SHARDS) ObjectIterator) (\<lambda>shards.
           foldR (syncShard_cpp pdbs cdbs local serverId dbname (fst pcol)) shards acts)
       else Inr acts)"

definition syncDatabase_cpp ::
  "vpack \<Rightarrow> vpack \<Rightarrow> vpack \<Rightarrow> string \<Rightarrow> string \<times> vpack \<Rightarrow>
   ActionDescription list \<Rightarrow> ActionDescription list res" where
  "syncDatabase_cpp pdbs cdbs local serverId pdb acts =
     bindR (bindR (hasKey local (fst pdb)) (\<lambda>isLocal.
              if isLocal then hasKey cdbs (fst pdb) else Inr False)) (\<lambda>both.
       if both then
         bindR (ObjectIterator (snd pdb)) (\<lambda>pcols.
           foldR (syncCollection_cpp pdbs cdbs local serverId (fst pdb)) pcols acts)
       else Inr acts)"

definition syncReplicatedShardsWithLeaders_cpp ::
  "vpack \<Rightarrow> vpack \<Rightarrow> vpack \<Rightarrow> string \<Rightarrow> ActionDescription list \<Rightarrow> ActionDescription list res" where
  "syncReplicatedShardsWithLeaders_cpp plan current local serverId acts =
     bindR (slice_get plan ''Collections'') (\<lambda>pdbs.
     bindR (slice_get current ''Collections'') (\<lambda>cdbs.
     bindR (ObjectIterator pdbs) (\<lambda>dbs.
       foldR (syncDatabase_cpp pdbs cdbs local serverId) dbs acts)))"

text \<open>
  \<^verbatim>\<open>phaseTwo\<close>: the reporter and the synchronizer each run in a \<^verbatim>\<open>try\<close> block that catches
  \<^verbatim>\<open>std::exception\<close>; what the reporter added before it threw stays in the report, the
  actions of a synchronizer that threw are dropped. The \<^verbatim>\<open>Result\<close> is that of the
  synchronizer, which is always ok, or the default one.
\<close>

definition phaseTwo_cpp ::
  "Databases \<Rightarrow> vpack \<Rightarrow> vpack \<Rightarrow> vpack \<Rightarrow> string \<Rightarrow> ActionDescription list \<Rightarrow>
   (string \<times> vpack) \<times> ActionDescription list \<times> Result res" where
  "phaseTwo_cpp lookup plan cur local serverId feature =
     (case reportInCurrent_cpp lookup plan cur local serverId [] of
        (entries, Some Undefined) \<Rightarrow> ((''phaseTwo'', VObj entries), feature, Inl Undefined)
      | (entries, _) \<Rightarrow>
          (case syncReplicatedShardsWithLeaders_cpp plan cur local serverId [] of
             Inl Undefined \<Rightarrow> ((''phaseTwo'', VObj entries), feature, Inl Undefined)
           | Inl Exception \<Rightarrow> ((''phaseTwo'', VObj entries), feature, Inr ResultOk)
           | Inr acts \<Rightarrow> ((''phaseTwo'', VObj entries), feature @ acts, Inr ResultOk)))"

text \<open>
  \<^verbatim>\<open>handleChange\<close> gives the entries of the report object, the feature's queue, and its
  \<^verbatim>\<open>Result\<close> or the fault that left it. The builders close the objects they opened when
  an exception unwinds them: \<^verbatim>\<open>plan.get("Version")\<close> that throws leaves an empty \<open>Plan\<close>
  entry behind.
\<close>

definition handleChange ::
  "Databases \<Rightarrow> vpack \<Rightarrow> vpack \<Rightarrow> vpack \<Rightarrow> string \<Rightarrow> ActionDescription list \<Rightarrow>
   report \<times> ActionDescription list \<times> Result res" where
  "handleChange lookup plan current local serverId feature =
     (case phaseOne_cpp plan current local serverId feature of
        (one, feature1, Inl e) \<Rightarrow> ([one], feature1, Inl e)
      | (one, feature1, Inr result) \<Rightarrow>
          if ok result then
            (case slice_get plan ''Version'' of
               Inl e \<Rightarrow> ([one, (''Plan'', VObj [])], feature1, Inl e)
             | Inr pversion \<Rightarrow>
                 (case phaseTwo_cpp lookup plan current local serverId feature1 of
                    (two, feature2, Inl e) \<Rightarrow>
                      ([one, (''Plan'', VObj [(''Version'', pversion)]), two], feature2, Inl e)
                  | (two, feature2, Inr result2) \<Rightarrow>
                      if ok result2 then
                        (case slice_get current ''Version'' of
                           Inl e \<Rightarrow>
                             ([one, (''Plan'', VObj [(''Version'', pversion)]), two,
                               (''Current'', VObj [])], feature2, Inl e)
                         | Inr cversion \<Rightarrow>
                             ([one, (''Plan'', VObj [(''Version'', pversion)]), two,
                               (''Current'', VObj [(''Version'', cversion)])], feature2,
                              Inr result2))
                      else
                        ([one, (''Plan'', VObj [(''Version'', pversion)]), two], feature2,
                         Inr result2)))
          else ([one], feature1, Inr result))"

lemmas cpp_defs = handleChange_def phaseOne_cpp_def phaseTwo_cpp_def executePlan_cpp_def
  diffPlanLocal_cpp_def planDatabase_cpp_def planCollection_cpp_def planShard_cpp_def
  planServerEntry_cpp_def handlePlanShard_cpp_def compareIndexes_cpp_def compareIndex_cpp_def
  localDatabase_cpp_def localShard_cpp_def handleLocalShard_cpp_def dropIndex_cpp_def
  reportInCurrent_cpp_def reportDatabase_cpp_def reportShard_cpp_def
  assembleLocalCollectioInfo_cpp_def syncReplicatedShardsWithLeaders_cpp_def
  syncDatabase_cpp_def syncCollection_cpp_def syncShard_cpp_def indexOf_cpp_def ok_def

section \<open>The database passes: a database planned twice over\<close>

text \<open>
  The actions of the shard loops of arangod/Cluster/Maintenance.cpp are shard actions
  too, so they never add or remove a \<open>CreateDatabase\<close>.
\<close>

lemma handlePlanShard_cpp_appends:
  assumes "handlePlanShard_cpp db cprops ldb dbname colname shname serverId leaderId st = Inr st'"
  shows "appends shardAction st st'"
  using assms unfolding handlePlanShard_cpp_def Let_def
  apply (auto dest!: bindR_Inr split: if_splits)
  apply ((erule appends_notE)?, (erule foldR_appends | rule appends_intros | erule ensureIndex_appends | simp add: shardAction_def)+)+
  done

lemma dropIndex_cpp_appends:
  "dropIndex_cpp index st = Inr st' \<Longrightarrow> appends shardAction st st'"
  by (auto simp: dropIndex_cpp_def intro!: appends_intros dest!: bindR_Inr split: if_splits)

lemma handleLocalShard_cpp_appends:
  assumes "handleLocalShard_cpp dbname colname cprops st = Inr st'"
  shows "appends shardAction st st'"
  using assms unfolding handleLocalShard_cpp_def Let_def
  apply (auto dest!: bindR_Inr split: if_splits)
  apply ((erule appends_notE)?, (erule foldR_appends | rule appends_intros | erule dropIndex_cpp_appends | simp add: shardAction_def)+)+
  done

lemma planServerEntry_cpp_appends:
  "planServerEntry_cpp cprops ldb dbname colname shname serverId servers db st = Inr st' \<Longrightarrow>
   appends shardAction st st'"
  by (auto simp: planServerEntry_cpp_def dest!: bindR_Inr handlePlanShard_cpp_appends)

lemma planShard_cpp_appends:
  "planShard_cpp cprops ldb dbname colname serverId shard st = Inr st' \<Longrightarrow> appends shardAction st st'"
  unfolding planShard_cpp_def
  by (auto dest!: bindR_Inr elim!: foldR_appends[OF _ appends_refl] planServerEntry_cpp_appends)

lemma planCollection_cpp_appends:
  "planCollection_cpp ldb dbname serverId pcol st = Inr st' \<Longrightarrow> appends shardAction st st'"
  unfolding planCollection_cpp_def
  by (auto dest!: bindR_Inr elim!: foldR_appends[OF _ appends_refl] planShard_cpp_appends)

lemma localShard_cpp_appends:
  "localShard_cpp dbname col st = Inr st' \<Longrightarrow> appends shardAction st st'"
  unfolding localShard_cpp_def
  by (auto dest!: bindR_Inr split: if_splits intro: appends_refl handleLocalShard_cpp_appends)

lemma localDatabase_cpp_appends:
  "localDatabase_cpp pdbs db st = Inr st' \<Longrightarrow> appends shardAction st st'"
  unfolding localDatabase_cpp_def
  by (auto dest!: bindR_Inr split: if_splits intro: appends_refl
      elim!: foldR_appends[OF _ appends_refl] localShard_cpp_appends)

lemma planDatabase_cpp_countCD:
  assumes "hasKey local d = Inr False" and "planDatabase_cpp local serverId pdb st = Inr st'"
  shows "countCD d st' = countCD d st + (if fst pdb = d then 1 else 0)"
proof (cases "fst pdb = d")
  case True
  then show ?thesis using assms
    by (auto simp: planDatabase_cpp_def bindR_def countCD_def push_back_def)
next
  case False
  have "appends (\<lambda>a. a \<noteq> createDatabase d) st st'"
  proof (cases "hasKey local (fst pdb) = Inr True")
    case True
    then have "appends shardAction st st'" using assms(2)
      by (auto simp: planDatabase_cpp_def dest!: bindR_Inr
          elim!: foldR_appends[OF _ appends_refl] planCollection_cpp_appends)
    then show ?thesis by (rule appends_mono) (rule shardAction_not_createDatabase)
  next
    case F: False
    then have "st' = push_back (createDatabase (fst pdb)) st" using assms(2)
      by (auto simp: planDatabase_cpp_def dest!: bindR_Inr split: if_splits)
    moreover have "createDatabase (fst pdb) \<noteq> createDatabase d"
      using False by (simp add: createDatabase_def)
    ultimately show ?thesis by (simp add: appends_push appends_refl)
  qed
  then have "count_list (actions st') (createDatabase d) = count_list (actions st) (createDatabase d)"
    by (rule appends_count) simp
  then show ?thesis using False by (simp add: countCD_def)
qed

lemma localDatabase_cpp_countCD:
  "localDatabase_cpp pdbs db st = Inr st' \<Longrightarrow> countCD d st' = countCD d st + 0"
  unfolding countCD_def
  by (simp, rule appends_count, erule localDatabase_cpp_appends, rule shardAction_not_createDatabase)

lemma diffPlanLocal_countCD:
  assumes "slice_get plan ''Databases'' = Inr (VObj pdbs0)"
    and "distinct (map fst pdbs0)" and "d \<in> fst ` set pdbs0"
    and "slice_get plan ''Collections'' = Inr (VObj pcols)"
    and "distinct (map fst pcols)" and "d \<in> fst ` set pcols"
    and "hasKey local d = Inr False"
    and "diffPlanLocal plan local serverId [] = Inr acts"
  shows "count_list acts (createDatabase d) = 2"
proof -
  let ?st0 = "\<lparr>colis = {}, indis = {}, actions = []\<rparr>"
  from assms(8) obtain st1 ldbs st2 st3 shardMap st4 where
    l1: "foldR (planDatabaseCreate local) pdbs0 ?st0 = Inr st1" and
    l2: "foldR (localDatabaseDrop plan) ldbs st1 = Inr st2" and
    l3: "foldR (planDatabase local serverId) pcols st2 = Inr st3" and
    l4: "foldR (localDatabase (VObj pcols) shardMap serverId) ldbs st3 = Inr st4" and
    r: "acts = actions st4"
    unfolding diffPlanLocal_def COLLECTIONS_def using assms(1,4)
    by (auto dest!: bindR_Inr simp: ObjectIterator_def)
  have "countCD d st1 = countCD d ?st0 + sum_list (map (\<lambda>x. if fst x = d then 1 else 0) pdbs0)"
    by (rule foldR_measure[OF l1]) (rule planDatabaseCreate_countCD[OF assms(7)])
  then have c1: "countCD d st1 = 1"
    using sum_key_once[OF assms(2,3)] by (simp add: countCD_def)
  have "countCD d st2 = countCD d st1 + sum_list (map (\<lambda>x. 0) ldbs)"
    by (rule foldR_measure[OF l2]) (rule localDatabaseDrop_countCD)
  then have c2: "countCD d st2 = 1" using c1 by simp
  have "countCD d st3 = countCD d st2 + sum_list (map (\<lambda>x. if fst x = d then 1 else 0) pcols)"
    by (rule foldR_measure[OF l3]) (rule planDatabase_countCD[OF assms(7)])
  then have c3: "countCD d st3 = 2"
    using sum_key_once[OF assms(5,6)] c2 by simp
  have "countCD d st4 = countCD d st3 + sum_list (map (\<lambda>x. 0) ldbs)"
    by (rule foldR_measure[OF l4]) (rule localDatabase_countCD)
  then show ?thesis using c3 r by (simp add: countCD_def)
qed

lemma diffPlanLocal_cpp_countCD:
  assumes "slice_get plan ''Databases'' = Inr (VObj pdbs0)"
    and "distinct (map fst pdbs0)" and "d \<in> fst ` set pdbs0"
    and "slice_get plan ''Collections'' = Inr (VObj pcols)"
    and "distinct (map fst pcols)" and "d \<in> fst ` set pcols"
    and "hasKey local d = Inr False"
    and "diffPlanLocal_cpp plan local serverId [] = Inr acts"
  shows "count_list acts (createDatabase d) = 2"
proof -
  let ?st0 = "\<lparr>colis = {}, indis = {}, actions = []\<rparr>"
  from assms(8) obtain st1 ldbs st2 st3 st4 where
    l1: "foldR (planDatabaseCreate local) pdbs0 ?st0 = Inr st1" and
    l2: "foldR (localDatabaseDrop plan) ldbs st1 = Inr st2" and
    l3: "foldR (planDatabase_cpp local serverId) pcols st2 = Inr st3" and
    l4: "foldR (localDatabase_cpp (VObj pcols)) ldbs st3 = Inr st4" and
    r: "acts = actions st4"
    unfolding diffPlanLocal_cpp_def using assms(1,4)
    by (auto dest!: bindR_Inr simp: ObjectIterator_def)
  have "countCD d st1 = countCD d ?st0 + sum_list (map (\<lambda>x. if fst x = d then 1 else 0) pdbs0)"
    by (rule foldR_measure[OF l1]) (rule planDatabaseCreate_countCD[OF assms(7)])
  then have c1: "countCD d st1 = 1"
    using sum_key_once[OF assms(2,3)] by (simp add: countCD_def)
  have "countCD d st2 = countCD d st1 + sum_list (map (\<lambda>x. 0) ldbs)"
    by (rule foldR_measure[OF l2]) (rule localDatabaseDrop_countCD)
  then have c2: "countCD d st2 = 1" using c1 by simp
  have "countCD d st3 = countCD d st2 + sum_list (map (\<lambda>x. if fst x = d then 1 else 0) pcols)"
    by (rule foldR_measure[OF l3]) (rule planDatabase_cpp_countCD[OF assms(7)])
  then have c3: "countCD d st3 = 2"
    using sum_key_once[OF assms(5,6)] c2 by simp
  have "countCD d st4 = countCD d st3 + sum_list (map (\<lambda>x. 0) ldbs)"
    by (rule foldR_measure[OF l4]) (rule localDatabase_cpp_countCD)
  then show ?thesis using c3 r by (simp add: countCD_def)
qed

text \<open>
  C9. A database that is a key of Plan's \<open>Databases\<close> and a key of Plan's \<open>Collections\<close>
  (each object with distinct keys) and that Local does not have: whenever \<^verbatim>\<open>diffPlanLocal\<close>
  returns, the action list holds exactly two actions with the name \<open>CreateDatabase\<close> and
  this database and nothing else, one from the loop over \<open>Databases\<close> and one from the
  loop over \<open>Collections\<close>; nothing in the pass removes a duplicate. This holds for the
  pass of unnamed/part_001 and for the pass of arangod/Cluster/Maintenance.cpp.
\<close>

theorem create_database_emitted_twice:
  assumes "slice_get plan ''Databases'' = Inr (VObj pdbs0)"
    and "distinct (map fst pdbs0)" and "d \<in> fst ` set pdbs0"
    and "slice_get plan ''Collections'' = Inr (VObj pcols)"
    and "distinct (map fst pcols)" and "d \<in> fst ` set pcols"
    and "hasKey local d = Inr False"
  shows "(diffPlanLocal plan local serverId [] = Inr acts \<longrightarrow>
            count_list acts \<lparr>description = [(NAME, PStr ''CreateDatabase''), (DATABASE, PStr d)],
                              properties = None\<rparr> = 2)
       \<and> (diffPlanLocal_cpp plan local serverId [] = Inr acts' \<longrightarrow>
            count_list acts' \<lparr>description = [(NAME, PStr ''CreateDatabase''), (DATABASE, PStr d)],
                               properties = None\<rparr> = 2)"
  using diffPlanLocal_countCD[OF assms] diffPlanLocal_cpp_countCD[OF assms]
  by (simp add: createDatabase_def)

theorem create_database_emitted_twice_witness:
  "diffPlanLocal
     (VObj [(''Databases'', VObj [(''d'', VObj []), (''e'', VObj [])]),
            (''Collections'', VObj [(''d'', VObj [(''c'', VObj [(''shards'',
                VObj [(''s1'', VArr [VStr ''A''])])])]),
              (''e'', VObj [(''c2'', VObj [(''shards'', VObj [(''s2'', VArr [VStr ''A''])])])])])])
     (VObj [(''e'', VObj [])]) ''A'' [] =
     Inr [\<lparr>description = [(''name'', PStr ''CreateDatabase''), (''database'', PStr ''d'')],
            properties = None\<rparr>,
          \<lparr>description = [(''name'', PStr ''CreateDatabase''), (''database'', PStr ''d'')],
            properties = None\<rparr>,
          \<lparr>description = [(''name'', PStr ''CreateCollection''), (''collection'', PStr ''c2''),
              (''shard'', PStr ''s2''), (''database'', PStr ''e''), (''leader'', PStr [])],
            properties = Some (VObj [(''shards'', VObj [(''s2'', VArr [VStr ''A''])])])\<rparr>]
   \<and> diffPlanLocal_cpp
     (VObj [(''Databases'', VObj [(''d'', VObj []), (''e'', VObj [])]),
            (''Collections'', VObj [(''d'', VObj [(''c'', VObj [(''shards'',
                VObj [(''s1'', VArr [VStr ''A''])])])]),
              (''e'', VObj [(''c2'', VObj [(''shards'', VObj [(''s2'', VArr [VStr ''A''])])])])])])
     (VObj [(''e'', VObj [])]) ''A'' [] =
     Inr [\<lparr>description = [(''name'', PStr ''CreateDatabase''), (''database'', PStr ''d'')],
            properties = None\<rparr>,
          \<lparr>description = [(''name'', PStr ''CreateDatabase''), (''database'', PStr ''d'')],
            properties = None\<rparr>,
          \<lparr>description = [(''name'', PStr ''CreateCollection''), (''collection'', PStr ''c2''),
              (''shard'', PStr ''s2''), (''database'', PStr ''e''), (''leader'', PStr [])],
            properties = Some (VObj [(''shards'', VObj [(''s2'', VArr [VStr ''A''])])])\<rparr>]
   \<and> count_list
       [\<lparr>description = [(''name'', PStr ''CreateDatabase''), (''database'', PStr ''d'')],
            properties = None\<rparr>,
          \<lparr>description = [(''name'', PStr ''CreateDatabase''), (''database'', PStr ''d'')],
            properties = None\<rparr>,
          \<lparr>description = [(''name'', PStr ''CreateCollection''), (''collection'', PStr ''c2''),
              (''shard'', PStr ''s2''), (''database'', PStr ''e''), (''leader'', PStr [])],
            properties = Some (VObj [(''shards'', VObj [(''s2'', VArr [VStr ''A''])])])\<rparr>]
       \<lparr>description = [(''name'', PStr ''CreateDatabase''), (''database'', PStr ''d'')],
            properties = None\<rparr> = 2"
proof -
  let ?plan = "VObj [(''Databases'', VObj [(''d'', VObj []), (''e'', VObj [])]),
            (''Collections'', VObj [(''d'', VObj [(''c'', VObj [(''shards'',
                VObj [(''s1'', VArr [VStr ''A''])])])]),
              (''e'', VObj [(''c2'', VObj [(''shards'', VObj [(''s2'', VArr [VStr ''A''])])])])])]"
  let ?local = "VObj [(''e'', VObj [])]"
  let ?acts = "[\<lparr>description = [(''name'', PStr ''CreateDatabase''), (''database'', PStr ''d'')],
            properties = None\<rparr>,
          \<lparr>description = [(''name'', PStr ''CreateDatabase''), (''database'', PStr ''d'')],
            properties = None\<rparr>,
          \<lparr>description = [(''name'', PStr ''CreateCollection''), (''collection'', PStr ''c2''),
              (''shard'', PStr ''s2''), (''database'', PStr ''e''), (''leader'', PStr [])],
            properties = Some (VObj [(''shards'', VObj [(''s2'', VArr [VStr ''A''])])])\<rparr>]"
  have e: "diffPlanLocal ?plan ?local ''A'' [] = Inr ?acts"
    by (simp add: diff_defs createDatabase_def slice_defs name_defs)
  have e': "diffPlanLocal_cpp ?plan ?local ''A'' [] = Inr ?acts"
    by (simp add: cpp_defs diff_defs createDatabase_def slice_defs name_defs)
  have "count_list ?acts \<lparr>description = [(NAME, PStr ''CreateDatabase''), (DATABASE, PStr ''d'')],
            properties = None\<rparr> = 2"
    using create_database_emitted_twice[of ?plan "[(''d'', VObj []), (''e'', VObj [])]" "''d''"
          "[(''d'', VObj [(''c'', VObj [(''shards'', VObj [(''s1'', VArr [VStr ''A''])])])]),
              (''e'', VObj [(''c2'', VObj [(''shards'', VObj [(''s2'', VArr [VStr ''A''])])])])]"
          ?local "''A''" ?acts ?acts] e e'
    by (simp add: slice_defs name_defs)
  with e e' show ?thesis by (simp add: name_defs)
qed

section \<open>\<^verbatim>\<open>handleChange\<close>: phase two after phase one\<close>

lemma phaseOne_cpp_ok:
  assumes "phaseOne_cpp plan cur local serverId feature = (one, feature1, Inr r1)"
  shows "r1 = ResultOk \<and> one = (''phaseOne'', VObj [])"
  using assms
  by (auto simp: phaseOne_cpp_def executePlan_cpp_def bindR_def split: sum.splits fault.splits)

lemma phaseTwo_cpp_entry:
  "fst (phaseTwo_cpp lookup plan cur local serverId feature) =
     (''phaseTwo'', VObj (fst (reportInCurrent_cpp lookup plan cur local serverId [])))"
  by (auto simp: phaseTwo_cpp_def split: prod.splits option.splits fault.splits sum.splits)

lemma phaseOne_cpp_not_object:
  "\<not> isObject plan \<Longrightarrow>
   phaseOne_cpp plan cur local serverId feature = ((''phaseOne'', VObj []), feature, Inr ResultOk)"
  by (auto simp: phaseOne_cpp_def executePlan_cpp_def diffPlanLocal_cpp_def bindR_def
      slice_get_def isObject_def split: vpack.splits)

lemma phaseTwo_cpp_ok:
  "phaseTwo_cpp lookup plan cur local serverId feature = (two, feature2, Inr r2) \<Longrightarrow> r2 = ResultOk"
  by (auto simp: phaseTwo_cpp_def split: prod.splits option.splits fault.splits sum.splits)

text \<open>
  C2, as the code has it. \<^verbatim>\<open>handleChange\<close> calls \<^verbatim>\<open>phaseTwo\<close> behind \<^verbatim>\<open>if (result.ok())\<close>.
  Whenever \<^verbatim>\<open>phaseOne\<close> returns, its \<^verbatim>\<open>Result\<close> is ok (its \<^verbatim>\<open>try\<close> block swallows the
  exceptions of the diff). When Plan is not an object, \<^verbatim>\<open>phaseOne\<close> returns ok,
  \<^verbatim>\<open>plan.get("Version")\<close> throws in \<^verbatim>\<open>handleChange\<close>, \<^verbatim>\<open>phaseTwo\<close> is not executed, and the
  report is the \<open>phaseOne\<close> entry and an empty \<open>Plan\<close> entry. When Plan is an object and
  \<^verbatim>\<open>phaseOne\<close> returns, \<^verbatim>\<open>phaseTwo\<close> is executed on the queue \<^verbatim>\<open>phaseOne\<close> left: the report
  holds the \<open>phaseOne\<close> entry, the \<open>Plan\<close> version and the \<open>phaseTwo\<close> entry with what the
  reporter added. When \<^verbatim>\<open>phaseTwo\<close> returns, the report ends with the \<open>Current\<close> entry,
  which holds Current's version when \<^verbatim>\<open>current.get("Version")\<close> does not throw and is
  empty, with the exception leaving \<^verbatim>\<open>handleChange\<close>, when it does. When \<^verbatim>\<open>phaseTwo\<close>
  ends in undefined behaviour, the report stops after the \<open>phaseTwo\<close> entry.
\<close>

theorem handleChange_phases:
  "(\<not> isObject nplan \<longrightarrow>
      phaseOne_cpp nplan cur local serverId feature =
        ((''phaseOne'', VObj []), feature, Inr ResultOk)
      \<and> handleChange lookup nplan cur local serverId feature =
        ([(''phaseOne'', VObj []), (''Plan'', VObj [])], feature, Inl Exception))
   \<and> (phaseOne_cpp (VObj p) cur local serverId feature = (one, feature1, Inr r1)
        \<and> phaseTwo_cpp lookup (VObj p) cur local serverId feature1 = (two, feature2, r2) \<longrightarrow>
      ok r1
      \<and> one = (''phaseOne'', VObj [])
      \<and> two = (''phaseTwo'', VObj (fst (reportInCurrent_cpp lookup (VObj p) cur local serverId [])))
      \<and> handleChange lookup (VObj p) cur local serverId feature =
          (case r2 of
             Inl e \<Rightarrow> ([one, (''Plan'', VObj [(''Version'', lookupKey p ''Version'')]), two],
                       feature2, Inl e)
           | Inr r \<Rightarrow>
               (case slice_get cur ''Version'' of
                  Inl e \<Rightarrow> ([one, (''Plan'', VObj [(''Version'', lookupKey p ''Version'')]), two,
                              (''Current'', VObj [])], feature2, Inl e)
                | Inr cversion \<Rightarrow>
                    ([one, (''Plan'', VObj [(''Version'', lookupKey p ''Version'')]), two,
                      (''Current'', VObj [(''Version'', cversion)])], feature2, Inr ResultOk))))"
proof (intro conjI impI)
  assume n: "\<not> isObject nplan"
  show "phaseOne_cpp nplan cur local serverId feature =
        ((''phaseOne'', VObj []), feature, Inr ResultOk)"
    by (rule phaseOne_cpp_not_object[OF n])
  have "slice_get nplan ''Version'' = Inl Exception"
    using n by (auto simp: slice_get_def isObject_def split: vpack.splits)
  then show "handleChange lookup nplan cur local serverId feature =
        ([(''phaseOne'', VObj []), (''Plan'', VObj [])], feature, Inl Exception)"
    using phaseOne_cpp_not_object[OF n, of cur local serverId feature]
    by (simp add: handleChange_def ok_def)
next
  assume a: "phaseOne_cpp (VObj p) cur local serverId feature = (one, feature1, Inr r1)
        \<and> phaseTwo_cpp lookup (VObj p) cur local serverId feature1 = (two, feature2, r2)"
  then have a1: "phaseOne_cpp (VObj p) cur local serverId feature = (one, feature1, Inr r1)"
    and a2: "phaseTwo_cpp lookup (VObj p) cur local serverId feature1 = (two, feature2, r2)"
    by simp_all
  have r: "r1 = ResultOk" and o: "one = (''phaseOne'', VObj [])"
    using phaseOne_cpp_ok[OF a1] by simp_all
  show "ok r1" using r by (simp add: ok_def)
  show "one = (''phaseOne'', VObj [])" by (rule o)
  show two: "two = (''phaseTwo'', VObj (fst (reportInCurrent_cpp lookup (VObj p) cur local serverId [])))"
    using phaseTwo_cpp_entry[of lookup "VObj p" cur local serverId feature1] a2 by simp
  show "handleChange lookup (VObj p) cur local serverId feature =
          (case r2 of
             Inl e \<Rightarrow> ([one, (''Plan'', VObj [(''Version'', lookupKey p ''Version'')]), two],
                       feature2, Inl e)
           | Inr r \<Rightarrow>
               (case slice_get cur ''Version'' of
                  Inl e \<Rightarrow> ([one, (''Plan'', VObj [(''Version'', lookupKey p ''Version'')]), two,
                              (''Current'', VObj [])], feature2, Inl e)
                | Inr cversion \<Rightarrow>
                    ([one, (''Plan'', VObj [(''Version'', lookupKey p ''Version'')]), two,
                      (''Current'', VObj [(''Version'', cversion)])], feature2, Inr ResultOk)))"
  proof (cases r2)
    case (Inl e)
    then show ?thesis using a1 a2 r
      by (simp add: handleChange_def ok_def slice_get_def)
  next
    case (Inr r')
    then have "r' = ResultOk" using phaseTwo_cpp_ok a2 by blast
    then show ?thesis using a1 a2 r Inr
      by (auto simp: handleChange_def ok_def slice_get_def split: sum.splits)
  qed
qed

theorem handleChange_phases_witness:
  "phaseOne_cpp
     (VObj [(''Version'', VNum 3), (''Databases'', VObj [(''d'', VObj [])]),
            (''Collections'', VObj [(''d'', VObj [(''c'', VObj [(''shards'',
               VObj [(''s1'', VArr [VStr ''A'', VStr ''B''])])])])])])
     (VObj [(''Version'', VNum 5), (''Databases'', VObj []), (''Collections'', VObj [])])
     (VObj [(''d'', VObj [(''s1'', VObj [(''planId'', VStr ''c''), (''leader'', VStr []),
                                         (''indexes'', VArr [])])])])
     ''A'' [] = ((''phaseOne'', VObj []), [], Inr ResultOk)
   \<and> phaseTwo_cpp storage1
     (VObj [(''Version'', VNum 3), (''Databases'', VObj [(''d'', VObj [])]),
            (''Collections'', VObj [(''d'', VObj [(''c'', VObj [(''shards'',
               VObj [(''s1'', VArr [VStr ''A'', VStr ''B''])])])])])])
     (VObj [(''Version'', VNum 5), (''Databases'', VObj []), (''Collections'', VObj [])])
     (VObj [(''d'', VObj [(''s1'', VObj [(''planId'', VStr ''c''), (''leader'', VStr []),
                                         (''indexes'', VArr [])])])])
     ''A'' [] =
     ((''phaseTwo'', VObj
          [(''Current/Databases/d/A'', VObj [(''op'', VStr ''set''),
              (''payload'', VObj [(''error'', VBool False), (''errorNum'', VNum 0),
                 (''errorMessage'', VStr []), (''id'', VStr ''1''), (''name'', VStr ''d'')])]),
           (''Current/Collections/d/c/s1'', VObj [(''op'', VStr ''set''),
              (''payload'', VObj [(''error'', VBool False), (''errorMessage'', VStr []),
                 (''errorNum'', VNum 0), (''indexes'', VArr []),
                 (''servers'', VArr [VStr ''A'', VStr ''B''])])])]),
      [], Inr ResultOk)
   \<and> handleChange storage1
     (VObj [(''Version'', VNum 3), (''Databases'', VObj [(''d'', VObj [])]),
            (''Collections'', VObj [(''d'', VObj [(''c'', VObj [(''shards'',
               VObj [(''s1'', VArr [VStr ''A'', VStr ''B''])])])])])])
     (VObj [(''Version'', VNum 5), (''Databases'', VObj []), (''Collections'', VObj [])])
     (VObj [(''d'', VObj [(''s1'', VObj [(''planId'', VStr ''c''), (''leader'', VStr []),
                                         (''indexes'', VArr [])])])])
     ''A'' [] =
     ([(''phaseOne'', VObj []), (''Plan'', VObj [(''Version'', VNum 3)]),
       (''phaseTwo'', VObj
          [(''Current/Databases/d/A'', VObj [(''op'', VStr ''set''),
              (''payload'', VObj [(''error'', VBool False), (''errorNum'', VNum 0),
                 (''errorMessage'', VStr []), (''id'', VStr ''1''), (''name'', VStr ''d'')])]),
           (''Current/Collections/d/c/s1'', VObj [(''op'', VStr ''set''),
              (''payload'', VObj [(''error'', VBool False), (''errorMessage'', VStr []),
                 (''errorNum'', VNum 0), (''indexes'', VArr []),
                 (''servers'', VArr [VStr ''A'', VStr ''B''])])])]),
       (''Current'', VObj [(''Version'', VNum 5)])],
      [], Inr ResultOk)
   \<and> \<not> isObject VNull
   \<and> handleChange storage1 VNull
     (VObj [(''Version'', VNum 5), (''Databases'', VObj []), (''Collections'', VObj [])])
     (VObj [(''d'', VObj [(''s1'', VObj [(''planId'', VStr ''c''), (''leader'', VStr []),
                                         (''indexes'', VArr [])])])])
     ''A'' [] = ([(''phaseOne'', VObj []), (''Plan'', VObj [])], [], Inl Exception)"
proof -
  let ?plan = "(VObj [(''Version'', VNum 3), (''Databases'', VObj [(''d'', VObj [])]),
            (''Collections'', VObj [(''d'', VObj [(''c'', VObj [(''shards'',
               VObj [(''s1'', VArr [VStr ''A'', VStr ''B''])])])])])])"
  let ?cur = "(VObj [(''Version'', VNum 5), (''Databases'', VObj []), (''Collections'', VObj [])])"
  let ?local = "(VObj [(''d'', VObj [(''s1'', VObj [(''planId'', VStr ''c''), (''leader'', VStr []),
                                         (''indexes'', VArr [])])])])"
  let ?two = "(''phaseTwo'', VObj
          [(''Current/Databases/d/A'', VObj [(''op'', VStr ''set''),
              (''payload'', VObj [(''error'', VBool False), (''errorNum'', VNum 0),
                 (''errorMessage'', VStr []), (''id'', VStr ''1''), (''name'', VStr ''d'')])]),
           (''Current/Collections/d/c/s1'', VObj [(''op'', VStr ''set''),
              (''payload'', VObj [(''error'', VBool False), (''errorMessage'', VStr []),
                 (''errorNum'', VNum 0), (''indexes'', VArr []),
                 (''servers'', VArr [VStr ''A'', VStr ''B''])])])])"
  have one: "phaseOne_cpp ?plan ?cur ?local ''A'' [] = ((''phaseOne'', VObj []), [], Inr ResultOk)"
    by (simp add: cpp_defs diff_defs slice_defs name_defs)
  have two: "phaseTwo_cpp storage1 ?plan ?cur ?local ''A'' [] = (?two, [], Inr ResultOk)"
    by (simp add: cpp_defs report_defs sync_defs slice_defs name_defs storage1_def)
  have n: "\<not> isObject VNull" by (simp add: isObject_def)
  have v: "slice_get ?cur ''Version'' = Inr (VNum 5)"
    "lookupKey [(''Version'', VNum 3), (''Databases'', VObj [(''d'', VObj [])]),
            (''Collections'', VObj [(''d'', VObj [(''c'', VObj [(''shards'',
               VObj [(''s1'', VArr [VStr ''A'', VStr ''B''])])])])])] ''Version'' = VNum 3"
    by (simp_all add: slice_defs)
  show ?thesis
    using handleChange_phases[where nplan = VNull and cur = ?cur and local = ?local
        and serverId = "''A''" and feature = "[]" and lookup = storage1
        and p = "[(''Version'', VNum 3), (''Databases'', VObj [(''d'', VObj [])]),
            (''Collections'', VObj [(''d'', VObj [(''c'', VObj [(''shards'',
               VObj [(''s1'', VArr [VStr ''A'', VStr ''B''])])])])])]"
        and one = "(''phaseOne'', VObj [])" and ?feature1.0 = "[]" and ?r1.0 = ResultOk
        and two = ?two and ?feature2.0 = "[]" and ?r2.0 = "Inr ResultOk"]
      one two n v
    by simp
qed

text \<open>
  C2 as stated fails: with a Plan that is not an object, \<^verbatim>\<open>phaseOne\<close> swallows the
  exception of the diff and returns ok, \<^verbatim>\<open>plan.get("Version")\<close> then throws in
  \<^verbatim>\<open>handleChange\<close> itself, and \<^verbatim>\<open>phaseTwo\<close> is never called: the report has no
  \<open>phaseTwo\<close> entry.
\<close>

theorem handleChange_without_phaseTwo:
  "handleChange storage1 VNull
     (VObj [(''Version'', VNum 5), (''Databases'', VObj []), (''Collections'', VObj [])])
     (VObj [(''d'', VObj [(''s1'', VObj [(''planId'', VStr ''c''), (''leader'', VStr []),
                                         (''indexes'', VArr [])])])])
     ''A'' [] = ([(''phaseOne'', VObj []), (''Plan'', VObj [])], [], Inl Exception)"
  by (simp add: cpp_defs diff_defs slice_defs name_defs)

section \<open>The Current reporter: a lookup that fails\<close>

text \<open>
  C8. The storage engine resolves no database. In arangod/Cluster/Maintenance.cpp
  \<^verbatim>\<open>assembleLocalCollectioInfo\<close> logs the failed lookup and goes on to call
  \<^verbatim>\<open>vocbase->lookupCollection\<close> on the null pointer: undefined behaviour, which the
  \<^verbatim>\<open>catch\<close> of \<^verbatim>\<open>phaseTwo\<close> does not stop, so \<^verbatim>\<open>handleChange\<close> does not return. The
  revision unnamed/part_001 returns the empty object there, and \<^verbatim>\<open>reportInCurrent\<close> skips
  the shard and ends without a fault.
\<close>

theorem failed_lookup_is_dereferenced:
  "assembleLocalCollectioInfo_cpp (\<lambda>d. None)
     (VObj [(''planId'', VStr ''c''), (''leader'', VStr []), (''indexes'', VArr [])])
     ''d'' ''s1'' ''A'' = Inl Undefined
   \<and> handleChange (\<lambda>d. None)
     (VObj [(''Version'', VNum 3), (''Databases'', VObj [(''d'', VObj [])]),
            (''Collections'', VObj [(''d'', VObj [(''c'', VObj [(''shards'',
               VObj [(''s1'', VArr [VStr ''A'', VStr ''B''])])])])])])
     (VObj [(''Version'', VNum 5), (''Databases'', VObj []), (''Collections'', VObj [])])
     (VObj [(''d'', VObj [(''s1'', VObj [(''planId'', VStr ''c''), (''leader'', VStr []),
                                         (''indexes'', VArr [])])])])
     ''A'' [] =
     ([(''phaseOne'', VObj []), (''Plan'', VObj [(''Version'', VNum 3)]), (''phaseTwo'', VObj [])],
      [], Inl Undefined)
   \<and> assembleLocalCollectioInfo (\<lambda>d. None)
     (VObj [(''planId'', VStr ''c''), (''leader'', VStr []), (''indexes'', VArr [])])
     ''d'' ''s1'' ''A'' = Inr (VObj [])
   \<and> reportInCurrent (\<lambda>d. None)
     (VObj [(''Version'', VNum 3), (''Databases'', VObj [(''d'', VObj [])]),
            (''Collections'', VObj [(''d'', VObj [(''c'', VObj [(''shards'',
               VObj [(''s1'', VArr [VStr ''A'', VStr ''B''])])])])])])
     (VObj [(''Version'', VNum 5), (''Databases'', VObj []), (''Collections'', VObj [])])
     (VObj [(''d'', VObj [(''s1'', VObj [(''planId'', VStr ''c''), (''leader'', VStr []),
                                         (''indexes'', VArr [])])])])
     ''A'' [] = ([], None)"
  by (simp add: cpp_defs diff_defs report_defs sync_defs slice_defs name_defs)

section \<open>Idempotence: what it means that Local reflects Plan and Current\<close>

text \<open>
  Readers of a slice that do not fail: the members of an object, the elements of an
  array, the text of a string, an attribute of an object (None when it is missing).
  They are used to say what a snapshot looks like, not to model the code.
\<close>

definition members :: "vpack \<Rightarrow> (string \<times> vpack) list" where
  "members v = (case v of VObj kvs \<Rightarrow> kvs | _ \<Rightarrow> [])"

definition elems :: "vpack \<Rightarrow> vpack list" where
  "elems v = (case v of VArr xs \<Rightarrow> xs | _ \<Rightarrow> [])"

definition str :: "vpack \<Rightarrow> string" where
  "str v = (case v of VStr s \<Rightarrow> s | _ \<Rightarrow> [])"

definition isString :: "vpack \<Rightarrow> bool" where
  "isString v = (case v of VStr _ \<Rightarrow> True | _ \<Rightarrow> False)"

definition attr :: "vpack \<Rightarrow> string \<Rightarrow> vpack" where
  "attr v k = lookupKey (members v) k"

definition autoIndex :: "vpack \<Rightarrow> bool" where
  "autoIndex ix = (attr ix TYPE_key = VStr PRIMARY \<or> attr ix TYPE_key = VStr EDGE)"

definition indexTyped :: "vpack \<Rightarrow> bool" where
  "indexTyped ix = (isObject ix \<and> isString (attr ix TYPE_key) \<and> (autoIndex ix \<or> isString (attr ix ID)))"

definition sameIndex :: "vpack \<Rightarrow> vpack \<Rightarrow> bool" where
  "sameIndex pix lix =
     (attr pix TYPE_key = attr lix TYPE_key \<and> normalized_equals (attr pix FIELDS) (attr lix FIELDS))"

definition indexesMatch :: "vpack list \<Rightarrow> vpack list \<Rightarrow> bool" where
  "indexesMatch pixs lixs = list_all (\<lambda>pix. autoIndex pix \<or> list_ex (sameIndex pix) lixs) pixs"

definition shardReflected :: "string \<Rightarrow> vpack \<Rightarrow> vpack \<Rightarrow> vpack \<Rightarrow> bool" where
  "shardReflected serverId cprops servers lcol =
     (isObject lcol \<and> isString (attr lcol LEADER)
      \<and> ((attr lcol LEADER = VStr []) = (VStr serverId = hd (elems servers)))
      \<and> list_all (\<lambda>property. attr cprops property = attr lcol property) cmp
      \<and> isArray (attr lcol INDEXES) \<and> list_all indexTyped (elems (attr lcol INDEXES))
      \<and> indexesMatch (elems (attr cprops INDEXES)) (elems (attr lcol INDEXES)))"

definition planShardReflected :: "string \<Rightarrow> vpack \<Rightarrow> vpack \<Rightarrow> string \<times> vpack \<Rightarrow> bool" where
  "planShardReflected serverId cprops ldb shard =
     (isArray (snd shard) \<and> elems (snd shard) \<noteq> [] \<and> list_all isString (elems (snd shard))
      \<and> (if VStr serverId \<in> set (elems (snd shard))
          then shardReflected serverId cprops (snd shard) (attr ldb (fst shard)) else True))"

definition planCollectionReflected :: "string \<Rightarrow> vpack \<Rightarrow> string \<times> vpack \<Rightarrow> bool" where
  "planCollectionReflected serverId ldb pcol =
     (isObject (snd pcol) \<and> isObject (attr (snd pcol) SHARDS)
      \<and> isArray (attr (snd pcol) INDEXES) \<and> list_all indexTyped (elems (attr (snd pcol) INDEXES))
      \<and> list_all (planShardReflected serverId (snd pcol) ldb) (members (attr (snd pcol) SHARDS)))"

definition planDatabaseReflected :: "string \<Rightarrow> vpack \<Rightarrow> string \<times> vpack \<Rightarrow> bool" where
  "planDatabaseReflected serverId local pdb =
     (isObject (attr local (fst pdb)) \<and> isObject (snd pdb)
      \<and> list_all (planCollectionReflected serverId (attr local (fst pdb))) (members (snd pdb)))"

definition shardNamesOf :: "string \<Rightarrow> vpack \<Rightarrow> string list" where
  "shardNamesOf serverId cprops =
     map fst (filter (\<lambda>shard. VStr serverId \<in> set (elems (snd shard))) (members (attr cprops SHARDS)))"

definition identitiesOf :: "string \<Rightarrow> vpack \<Rightarrow> string list" where
  "identitiesOf serverId cprops =
     concat (map (\<lambda>shname. map (\<lambda>pix. shname @ ''/'' @ str (attr pix ID))
                           (filter (\<lambda>pix. \<not> autoIndex pix) (elems (attr cprops INDEXES))))
                 (shardNamesOf serverId cprops))"

definition plannedShardNames :: "string \<Rightarrow> vpack \<Rightarrow> string list" where
  "plannedShardNames serverId pdbs =
     concat (map (\<lambda>pdb. concat (map (\<lambda>pcol. shardNamesOf serverId (snd pcol)) (members (snd pdb))))
                 (members pdbs))"

definition plannedIdentities :: "string \<Rightarrow> vpack \<Rightarrow> string list" where
  "plannedIdentities serverId pdbs =
     concat (map (\<lambda>pdb. concat (map (\<lambda>pcol. identitiesOf serverId (snd pcol)) (members (snd pdb))))
                 (members pdbs))"

definition localIndexPlanned :: "string list \<Rightarrow> string \<Rightarrow> vpack \<Rightarrow> bool" where
  "localIndexPlanned ids shname lix =
     (indexTyped lix \<and>
      (autoIndex lix \<or>
       (CHR ''/'' \<notin> set (str (attr lix ID)) \<and> shname @ ''/'' @ str (attr lix ID) \<in> set ids)))"

definition localShardReflected :: "string \<Rightarrow> vpack \<Rightarrow> vpack \<Rightarrow> string \<times> vpack \<Rightarrow> bool" where
  "localShardReflected serverId pdbs shardMap col =
     (fst col \<noteq> [] \<and>
      (hd (fst col) = CHR ''_'' \<or>
       (isObject (snd col) \<and> isString (attr (snd col) LEADER)
        \<and> isArray (attr shardMap (fst col)) \<and> elems (attr shardMap (fst col)) \<noteq> []
        \<and> isString (hd (elems (attr shardMap (fst col))))
        \<and> ((attr (snd col) LEADER = VStr []) = (VStr serverId = hd (elems (attr shardMap (fst col)))))
        \<and> fst col \<in> set (plannedShardNames serverId pdbs)
        \<and> isArray (attr (snd col) INDEXES)
        \<and> list_all (localIndexPlanned (plannedIdentities serverId pdbs) (fst col))
             (elems (attr (snd col) INDEXES)))))"

definition localDatabaseReflected :: "string \<Rightarrow> vpack \<Rightarrow> vpack \<Rightarrow> string \<times> vpack \<Rightarrow> bool" where
  "localDatabaseReflected serverId pdbs shardMap db =
     (attr pdbs (fst db) = VNone \<or>
      (isObject (snd db) \<and> list_all (localShardReflected serverId pdbs shardMap) (members (snd db))))"

definition nonSystem :: "string list \<Rightarrow> string list" where
  "nonSystem names = filter (\<lambda>n. hd n \<noteq> CHR ''_'') names"

definition localShardNamesOf :: "vpack \<Rightarrow> string \<times> vpack \<Rightarrow> string list" where
  "localShardNamesOf pdbs db =
     (if attr pdbs (fst db) = VNone then [] else nonSystem (map fst (members (snd db))))"

definition localShardNames :: "vpack \<Rightarrow> vpack \<Rightarrow> string list" where
  "localShardNames pdbs local = concat (map (localShardNamesOf pdbs) (members local))"

definition reflects :: "string \<Rightarrow> vpack \<Rightarrow> vpack \<Rightarrow> bool" where
  "reflects serverId plan local =
     (isObject local \<and> isObject (attr plan ''Databases'') \<and> isObject (attr plan COLLECTIONS)
      \<and> list_all (\<lambda>pdb. attr local (fst pdb) \<noteq> VNone) (members (attr plan ''Databases''))
      \<and> list_all (\<lambda>ldb. attr (attr plan ''Databases'') (fst ldb) \<noteq> VNone) (members local)
      \<and> list_all (planDatabaseReflected serverId local) (members (attr plan COLLECTIONS))
      \<and> list_all (localDatabaseReflected serverId (attr plan COLLECTIONS)
                     (case getShardMap (attr plan COLLECTIONS) of Inl e \<Rightarrow> VNone | Inr m \<Rightarrow> m))
           (members local)
      \<and> distinct (localShardNames (attr plan COLLECTIONS) local))"

text \<open>
  The Current side. A leader shard is reported when its freshly assembled snapshot is
  empty (the storage engine does not resolve it) or Current has an equivalent entry for
  it; a follower shard when Current does not list this node first for it. A database is
  reported when Current has its entry for this server or the storage engine does not
  resolve it. An entry of Current is kept when it is not a shard led by this node that is
  in neither Local nor the planned shard map, nor a database in neither Local nor Plan.
\<close>

definition leaderReported :: "Databases \<Rightarrow> vpack \<Rightarrow> string \<Rightarrow> string \<Rightarrow> string \<times> vpack \<Rightarrow> bool" where
  "leaderReported lookup cur serverId dbName shard =
     (case assembleLocalCollectioInfo lookup (snd shard) dbName (fst shard) serverId of
        Inl e \<Rightarrow> False
      | Inr info \<Rightarrow>
          isEmptyObject info \<or>
          (case get_path cur [COLLECTIONS, dbName, str (attr (snd shard) PLAN_ID), fst shard] of
             Inl e \<Rightarrow> False
           | Inr entry \<Rightarrow> entry \<noteq> VNone \<and> equivalent info entry = Inr True))"

definition followerReported :: "vpack \<Rightarrow> string \<Rightarrow> string \<Rightarrow> string \<times> vpack \<Rightarrow> bool" where
  "followerReported cur serverId dbName shard =
     (case get_path cur [COLLECTIONS, dbName, str (attr (snd shard) PLAN_ID), fst shard, SERVERS] of
        Inl e \<Rightarrow> False
      | Inr s \<Rightarrow>
          (case s of
             VArr servers \<Rightarrow> servers \<noteq> [] \<and> isString (hd servers) \<and> hd servers \<noteq> VStr serverId
           | _ \<Rightarrow> True))"

definition shardReported :: "Databases \<Rightarrow> vpack \<Rightarrow> string \<Rightarrow> string \<Rightarrow> string \<times> vpack \<Rightarrow> bool" where
  "shardReported lookup cur serverId dbName shard =
     (fst shard \<noteq> [] \<and>
      (hd (fst shard) = CHR ''_'' \<or>
       (isObject (snd shard) \<and> isString (attr (snd shard) PLAN_ID)
        \<and> isString (attr (snd shard) LEADER)
        \<and> (if attr (snd shard) LEADER = VStr []
            then leaderReported lookup cur serverId dbName shard
            else followerReported cur serverId dbName shard))))"

definition databaseReported :: "Databases \<Rightarrow> vpack \<Rightarrow> string \<Rightarrow> string \<times> vpack \<Rightarrow> bool" where
  "databaseReported lookup cur serverId database =
     ((hasKey_path cur [''Databases'', fst database, serverId] = Inr True
       \<or> lookup (fst database) = None)
      \<and> isObject (snd database)
      \<and> list_all (shardReported lookup cur serverId (fst database)) (members (snd database)))"

definition currentShardKept :: "vpack \<Rightarrow> vpack \<Rightarrow> string \<Rightarrow> string \<Rightarrow> string \<times> vpack \<Rightarrow> bool" where
  "currentShardKept local shardMap serverId dbName shard =
     (isObject (snd shard) \<and>
      (case attr (snd shard) SERVERS of
         VArr (first # rest) \<Rightarrow>
           isString first \<and>
           (first \<noteq> VStr serverId \<or> attr (attr local dbName) (fst shard) \<noteq> VNone
            \<or> attr shardMap (fst shard) \<noteq> VNone)
       | _ \<Rightarrow> True))"

definition currentDatabaseKept :: "vpack \<Rightarrow> vpack \<Rightarrow> vpack \<Rightarrow> string \<Rightarrow> string \<times> vpack \<Rightarrow> bool" where
  "currentDatabaseKept local pdbs shardMap serverId database =
     ((attr local (fst database) \<noteq> VNone \<or> attr pdbs (fst database) \<noteq> VNone)
      \<and> isObject (snd database)
      \<and> list_all (\<lambda>collection. isObject (snd collection) \<and>
            list_all (currentShardKept local shardMap serverId (fst database))
              (members (snd collection)))
           (members (snd database)))"

definition reported :: "Databases \<Rightarrow> string \<Rightarrow> vpack \<Rightarrow> vpack \<Rightarrow> vpack \<Rightarrow> bool" where
  "reported lookup serverId plan cur local =
     (isObject local \<and> isObject cur \<and> isObject plan
      \<and> list_all (databaseReported lookup cur serverId) (members local)
      \<and> isObject (attr cur COLLECTIONS) \<and> isObject (attr plan COLLECTIONS)
      \<and> (case getShardMap (attr plan COLLECTIONS) of
            Inl e \<Rightarrow> False
          | Inr shardMap \<Rightarrow>
              list_all (currentDatabaseKept local (attr plan COLLECTIONS) shardMap serverId)
                (members (attr cur COLLECTIONS))))"

lemmas reflect_defs = reflects_def planDatabaseReflected_def planCollectionReflected_def
  planShardReflected_def shardReflected_def indexesMatch_def sameIndex_def indexTyped_def
  autoIndex_def localDatabaseReflected_def localShardReflected_def localIndexPlanned_def
  localShardNames_def localShardNamesOf_def nonSystem_def plannedShardNames_def
  plannedIdentities_def identitiesOf_def shardNamesOf_def attr_def members_def elems_def
  str_def isString_def

lemmas reported_defs = reported_def databaseReported_def shardReported_def leaderReported_def
  followerReported_def currentDatabaseKept_def currentShardKept_def

subsection \<open>The Plan pass on a reflected snapshot\<close>

lemma isObjectE: "isObject v \<Longrightarrow> (\<And>kvs. v = VObj kvs \<Longrightarrow> P) \<Longrightarrow> P"
  by (cases v) (auto simp: isObject_def)

lemma isArrayE: "isArray v \<Longrightarrow> (\<And>xs. v = VArr xs \<Longrightarrow> P) \<Longrightarrow> P"
  by (cases v) (auto simp: isArray_def)

lemma isStringE: "isString v \<Longrightarrow> (\<And>s. v = VStr s \<Longrightarrow> P) \<Longrightarrow> P"
  by (cases v) (auto simp: isString_def)

lemma slice_get_attr: "isObject v \<Longrightarrow> slice_get v k = Inr (attr v k)"
  by (auto elim!: isObjectE simp: slice_get_def attr_def members_def)

lemma hasKey_attr: "isObject v \<Longrightarrow> hasKey v k = Inr (attr v k \<noteq> VNone)"
  by (simp add: hasKey_def slice_get_attr bindR_def)

lemma ObjectIterator_members: "isObject v \<Longrightarrow> ObjectIterator v = Inr (members v)"
  by (auto elim!: isObjectE simp: ObjectIterator_def members_def)

lemma ArrayIterator_elems: "isArray v \<Longrightarrow> ArrayIterator v = Inr (elems v)"
  by (auto elim!: isArrayE simp: ArrayIterator_def elems_def)

lemma copyString_str: "isString v \<Longrightarrow> copyString v = Inr (str v)"
  by (auto elim!: isStringE simp: copyString_def str_def)

lemma isObject_not_None: "isObject v \<Longrightarrow> v \<noteq> VNone"
  by (auto simp: isObject_def)

lemma isArray_not_None: "isArray v \<Longrightarrow> v \<noteq> VNone"
  by (auto simp: isArray_def)

lemma findLocalIndex_typed:
  assumes "list_all indexTyped lixs" and "isString (attr pix TYPE_key)"
  shows "findLocalIndex (str (attr pix TYPE_key)) (attr pix FIELDS) lixs =
           Inr (list_ex (\<lambda>lix. \<not> autoIndex lix \<and> sameIndex pix lix) lixs)"
  using assms(1)
proof (induction lixs)
  case Nil
  show ?case by simp
next
  case (Cons lix lixs)
  then have t: "indexTyped lix" and rest: "list_all indexTyped lixs" by simp_all
  from t have o: "isObject lix" and s: "isString (attr lix TYPE_key)" by (simp_all add: indexTyped_def)
  from s obtain lt where lt: "attr lix TYPE_key = VStr lt" by (auto elim: isStringE)
  from assms(2) obtain pt where pt: "attr pix TYPE_key = VStr pt" by (auto elim: isStringE)
  show ?case
    using Cons.IH[OF rest] lt pt
    by (auto simp: slice_get_attr[OF o] bindR_def copyString_def str_def autoIndex_def sameIndex_def)
qed


lemma sameIndex_not_auto: "sameIndex pix lix \<Longrightarrow> \<not> autoIndex pix \<Longrightarrow> \<not> autoIndex lix"
  by (simp add: sameIndex_def autoIndex_def)

lemma compareIndex_reflected:
  assumes "indexTyped pix" and "list_all indexTyped lixs"
    and "autoIndex pix \<or> list_ex (sameIndex pix) lixs"
  shows "compareIndex shname (VArr lixs) pix (b, ind) =
           Inr (b, if autoIndex pix then ind else insert (shname @ ''/'' @ str (attr pix ID)) ind)"
proof -
  from assms(1) have o: "isObject pix" and s: "isString (attr pix TYPE_key)"
    by (simp_all add: indexTyped_def)
  from s obtain pt where pt: "attr pix TYPE_key = VStr pt" by (auto elim: isStringE)
  show ?thesis
  proof (cases "autoIndex pix")
    case True
    then show ?thesis using pt
      by (auto simp: compareIndex_def slice_get_attr[OF o] bindR_def copyString_def autoIndex_def)
  next
    case False
    then have "isString (attr pix ID)" using assms(1) by (simp add: indexTyped_def)
    then obtain pid where pid: "attr pix ID = VStr pid" by (auto elim: isStringE)
    from False assms(3) have "list_ex (\<lambda>lix. \<not> autoIndex lix \<and> sameIndex pix lix) lixs"
      by (auto simp: list_ex_iff dest: sameIndex_not_auto)
    then have f: "findLocalIndex pt (attr pix FIELDS) lixs = Inr True"
      using findLocalIndex_typed[OF assms(2) s] pt by (simp add: str_def)
    show ?thesis using False pt f pid
      by (auto simp: compareIndex_def slice_get_attr[OF o] bindR_def str_def
          isArray_def ArrayIterator_def autoIndex_def copyString_def)
  qed
qed

definition identitiesIn :: "string \<Rightarrow> vpack list \<Rightarrow> string set" where
  "identitiesIn shname pixs =
     (\<lambda>pix. shname @ ''/'' @ str (attr pix ID)) ` {pix \<in> set pixs. \<not> autoIndex pix}"

lemma compareIndexes_fold_reflected:
  assumes "list_all indexTyped pixs" and "list_all indexTyped lixs" and "indexesMatch pixs lixs"
  shows "foldR (compareIndex shname (VArr lixs)) pixs (b, ind) =
           Inr (b, ind \<union> identitiesIn shname pixs)"
  using assms(1,3)
proof (induction pixs arbitrary: ind)
  case Nil
  show ?case by (simp add: identitiesIn_def)
next
  case (Cons pix pixs)
  then have t: "indexTyped pix" and m: "autoIndex pix \<or> list_ex (sameIndex pix) lixs"
    and rest: "list_all indexTyped pixs" "indexesMatch pixs lixs"
    by (simp_all add: indexesMatch_def)
  show ?case
    using compareIndex_reflected[OF t assms(2) m, of shname b ind] Cons.IH[OF rest]
    by (auto simp: identitiesIn_def)
qed

lemma compareIndexes_reflected:
  assumes "list_all indexTyped (elems p)" and "list_all indexTyped (elems l)"
    and "indexesMatch (elems p) (elems l)" and "isArray p" and "isArray l"
  shows "compareIndexes shname p l ind = Inr ([], ind \<union> identitiesIn shname (elems p))"
proof -
  from assms(4) obtain pixs where "p = VArr pixs" by (auto elim: isArrayE)
  moreover from assms(5) obtain lixs where "l = VArr lixs" by (auto elim: isArrayE)
  ultimately have "p = VArr pixs" "l = VArr lixs" by simp_all
  then show ?thesis
    using compareIndexes_fold_reflected[of pixs lixs shname "[]" ind] assms(1-3)
    by (simp add: compareIndexes_def isArray_def ArrayIterator_def bindR_def elems_def)
qed

lemma compareRelevantProps_equal:
  assumes "isObject cprops" and "isObject lcol"
    and "list_all (\<lambda>property. attr cprops property = attr lcol property) cmp"
  shows "compareRelevantProps cprops lcol = Inr (VObj [])"
  using assms(3)
  by (simp add: compareRelevantProps_def cmp_def slice_get_attr[OF assms(1)]
      slice_get_attr[OF assms(2)] bindR_def)

lemma handlePlanShard_reflected:
  assumes "shardReflected serverId cprops servers (attr ldb shname)"
    and "isObject cprops" and "isObject ldb"
    and "isArray (attr cprops INDEXES)" and "list_all indexTyped (elems (attr cprops INDEXES))"
    and "hd (elems servers) = VStr leaderId"
  shows "handlePlanShard (VStr serverId) cprops ldb dbname colname shname serverId leaderId noPass =
           Inr \<lparr>colis = {shname}, indis = identitiesIn shname (elems (attr cprops INDEXES)),
                actions = []\<rparr>"
proof -
  let ?lcol = "attr ldb shname"
  from assms(1) have lo: "isObject ?lcol" and ls: "isString (attr ?lcol LEADER)"
    and lead: "(attr ?lcol LEADER = VStr []) = (VStr serverId = hd (elems servers))"
    and props: "list_all (\<lambda>property. attr cprops property = attr ?lcol property) cmp"
    and la: "isArray (attr ?lcol INDEXES)" and lt: "list_all indexTyped (elems (attr ?lcol INDEXES))"
    and im: "indexesMatch (elems (attr cprops INDEXES)) (elems (attr ?lcol INDEXES))"
    by (simp_all add: shardReflected_def)
  from ls obtain ll where ll: "attr ?lcol LEADER = VStr ll" by (auto elim: isStringE)
  have leading: "(ll = []) = (serverId = leaderId)" using lead ll assms(6) by auto
  have cp: "createProps cprops = Inr (VObj (filter (\<lambda>(key, v). \<not> (key = ID \<or> key = NAME)) (members cprops)))"
    by (simp add: createProps_def ObjectIterator_members[OF assms(2)] bindR_def)
  show ?thesis
    unfolding handlePlanShard_def Let_def
    using leading
    by (simp add: copyString_def bindR_def cp hasKey_attr[OF assms(3)] isObject_not_None[OF lo]
        slice_get_attr[OF assms(3)] slice_get_attr[OF lo] ll
        compareRelevantProps_equal[OF assms(2) lo props]
        hasKey_attr[OF assms(2)] isArray_not_None[OF assms(4)] slice_get_attr[OF assms(2)]
        compareIndexes_reflected[OF assms(5) lt im assms(4) la] noPass_def)
qed


lemma foldR_effect:
  assumes "\<And>x. x \<in> set xs \<Longrightarrow> stateless (f x)"
    and "\<And>x. x \<in> set xs \<Longrightarrow> f x noPass = Inr \<lparr>colis = C x, indis = I x, actions = []\<rparr>"
  shows "foldR f xs noPass =
           Inr \<lparr>colis = (\<Union>x\<in>set xs. C x), indis = (\<Union>x\<in>set xs. I x), actions = []\<rparr>"
  using assms
proof (induction xs)
  case Nil
  show ?case by (simp add: noPass_def)
next
  case (Cons x xs)
  have head: "f x noPass = Inr \<lparr>colis = C x, indis = I x, actions = []\<rparr>"
    using Cons.prems(2) by simp
  have tail: "foldR f xs noPass =
      Inr \<lparr>colis = (\<Union>x\<in>set xs. C x), indis = (\<Union>x\<in>set xs. I x), actions = []\<rparr>"
    using Cons by simp
  have "stateless (foldR f xs)" using Cons.prems(1) by (intro stateless_foldR) simp
  from statelessD[OF this, of "\<lparr>colis = C x, indis = I x, actions = []\<rparr>"] tail head
  show ?case by (simp add: merge_def)
qed

lemma stateless_planShard:
  "stateless (planShard cprops ldb dbname colname serverId shard)"
  unfolding planShard_def[abs_def]
  by (intro stateless_if stateless_bindc stateless_foldR stateless_planServerEntry stateless_return)

lemma stateless_planCollection:
  "stateless (planCollection ldb dbname serverId pcol)"
  unfolding planCollection_def[abs_def]
  by (intro stateless_bindc stateless_foldR stateless_planShard)

lemma stateless_push_back: "stateless (\<lambda>st. Inr (push_back a st))"
  by (rule stateless_after[OF stateless_return, where h = "push_back a"]) (rule push_back_merge)

lemma stateless_planDatabase:
  "stateless (planDatabase local serverId pdb)"
  unfolding planDatabase_def[abs_def]
  by (intro stateless_if stateless_bindc stateless_foldR stateless_planCollection stateless_push_back)

lemma planServerEntry_reflected:
  assumes "planShardReflected serverId cprops ldb (shname, servers)"
    and "isObject cprops" and "isObject ldb"
    and "isArray (attr cprops INDEXES)" and "list_all indexTyped (elems (attr cprops INDEXES))"
    and "e \<in> set (elems servers)"
  shows "planServerEntry cprops ldb dbname colname shname serverId servers e noPass =
           Inr \<lparr>colis = (if e = VStr serverId then {shname} else {}),
                indis = (if e = VStr serverId then identitiesIn shname (elems (attr cprops INDEXES)) else {}),
                actions = []\<rparr>"
proof -
  from assms(1) have a: "isArray servers" and ne: "elems servers \<noteq> []"
    and strs: "list_all isString (elems servers)"
    by (simp_all add: planShardReflected_def)
  from a obtain es where es: "servers = VArr es" by (auto elim: isArrayE)
  with ne obtain l ls where l: "es = l # ls" by (cases es) (auto simp: elems_def)
  from strs es l obtain leaderId where lead: "l = VStr leaderId"
    by (auto simp: elems_def elim: isStringE)
  have at: "bindR (at0 servers) copyString = Inr leaderId"
    using es l lead by (simp add: at0_def bindR_def copyString_def)
  from strs assms(6) obtain x where x: "e = VStr x"
    by (auto simp: list_all_iff elim: isStringE)
  show ?thesis
  proof (cases "x = serverId")
    case True
    then have "VStr serverId \<in> set (elems servers)" using assms(6) x by simp
    then have r: "shardReflected serverId cprops servers (attr ldb shname)"
      using assms(1) by (simp add: planShardReflected_def)
    have h: "hd (elems servers) = VStr leaderId" using es l lead by (simp add: elems_def)
    show ?thesis
      using handlePlanShard_reflected[OF r assms(2-5) h, of dbname colname] True x at
      by (simp add: planServerEntry_def bindR_def)
  next
    case False
    then show ?thesis using x at
      by (simp add: planServerEntry_def handlePlanShard_def bindR_def copyString_def noPass_def)
  qed
qed

lemma planShard_reflected:
  assumes "planShardReflected serverId cprops ldb shard"
    and "isObject cprops" and "isObject ldb"
    and "isArray (attr cprops INDEXES)" and "list_all indexTyped (elems (attr cprops INDEXES))"
  shows "planShard cprops ldb dbname colname serverId shard noPass =
           Inr \<lparr>colis = (if VStr serverId \<in> set (elems (snd shard)) then {fst shard} else {}),
                indis = (if VStr serverId \<in> set (elems (snd shard))
                         then identitiesIn (fst shard) (elems (attr cprops INDEXES)) else {}),
                actions = []\<rparr>"
proof -
  obtain shname servers where sh: "shard = (shname, servers)" by (cases shard)
  from assms(1) sh have a: "isArray servers" by (simp add: planShardReflected_def)
  have "foldR (planServerEntry cprops ldb dbname colname shname serverId servers) (elems servers) noPass =
      Inr \<lparr>colis = (\<Union>e\<in>set (elems servers). if e = VStr serverId then {shname} else {}),
           indis = (\<Union>e\<in>set (elems servers). if e = VStr serverId
                      then identitiesIn shname (elems (attr cprops INDEXES)) else {}),
           actions = []\<rparr>"
    by (rule foldR_effect)
       (simp_all add: stateless_planServerEntry
          planServerEntry_reflected[OF assms(1)[unfolded sh] assms(2-5)])
  moreover have "(\<Union>e\<in>set (elems servers). if e = VStr serverId then {shname} else {}) =
      (if VStr serverId \<in> set (elems servers) then {shname} else {})" by auto
  moreover have "(\<Union>e\<in>set (elems servers). if e = VStr serverId
                      then identitiesIn shname (elems (attr cprops INDEXES)) else {}) =
      (if VStr serverId \<in> set (elems servers)
       then identitiesIn shname (elems (attr cprops INDEXES)) else {})" by auto
  ultimately show ?thesis using a sh
    by (simp add: planShard_def ArrayIterator_elems bindR_def)
qed


lemma set_shardNamesOf:
  "set (shardNamesOf serverId cprops) =
     (\<Union>shard\<in>set (members (attr cprops SHARDS)).
        if VStr serverId \<in> set (elems (snd shard)) then {fst shard} else {})"
  by (auto simp: shardNamesOf_def)

lemma set_identitiesOf:
  "set (identitiesOf serverId cprops) =
     (\<Union>shard\<in>set (members (attr cprops SHARDS)).
        if VStr serverId \<in> set (elems (snd shard))
        then identitiesIn (fst shard) (elems (attr cprops INDEXES)) else {})"
  by (auto simp: identitiesOf_def shardNamesOf_def identitiesIn_def)

lemma planCollection_reflected:
  assumes "planCollectionReflected serverId ldb pcol" and "isObject ldb"
  shows "planCollection ldb dbname serverId pcol noPass =
           Inr \<lparr>colis = set (shardNamesOf serverId (snd pcol)),
                indis = set (identitiesOf serverId (snd pcol)), actions = []\<rparr>"
proof -
  let ?cprops = "snd pcol"
  from assms(1) have o: "isObject ?cprops" and so: "isObject (attr ?cprops SHARDS)"
    and ia: "isArray (attr ?cprops INDEXES)" and it: "list_all indexTyped (elems (attr ?cprops INDEXES))"
    and sh: "list_all (planShardReflected serverId ?cprops ldb) (members (attr ?cprops SHARDS))"
    by (simp_all add: planCollectionReflected_def)
  have "foldR (planShard ?cprops ldb dbname (fst pcol) serverId) (members (attr ?cprops SHARDS)) noPass =
      Inr \<lparr>colis = (\<Union>shard\<in>set (members (attr ?cprops SHARDS)).
                      if VStr serverId \<in> set (elems (snd shard)) then {fst shard} else {}),
           indis = (\<Union>shard\<in>set (members (attr ?cprops SHARDS)).
                      if VStr serverId \<in> set (elems (snd shard))
                      then identitiesIn (fst shard) (elems (attr ?cprops INDEXES)) else {}),
           actions = []\<rparr>"
  proof (rule foldR_effect)
    fix shard assume "shard \<in> set (members (attr ?cprops SHARDS))"
    then have "planShardReflected serverId ?cprops ldb shard" using sh by (simp add: list_all_iff)
    from planShard_reflected[OF this o assms(2) ia it]
    show "planShard ?cprops ldb dbname (fst pcol) serverId shard noPass =
       Inr \<lparr>colis = (if VStr serverId \<in> set (elems (snd shard)) then {fst shard} else {}),
            indis = (if VStr serverId \<in> set (elems (snd shard))
                     then identitiesIn (fst shard) (elems (attr ?cprops INDEXES)) else {}),
            actions = []\<rparr>" .
  qed (rule stateless_planShard)
  then show ?thesis
    by (simp add: planCollection_def slice_get_attr[OF o] ObjectIterator_members[OF so] bindR_def
        set_shardNamesOf set_identitiesOf)
qed

lemma planDatabase_reflected:
  assumes "planDatabaseReflected serverId local pdb" and "isObject local"
  shows "planDatabase local serverId pdb noPass =
           Inr \<lparr>colis = (\<Union>pcol\<in>set (members (snd pdb)). set (shardNamesOf serverId (snd pcol))),
                indis = (\<Union>pcol\<in>set (members (snd pdb)). set (identitiesOf serverId (snd pcol))),
                actions = []\<rparr>"
proof -
  let ?ldb = "attr local (fst pdb)"
  from assms(1) have lo: "isObject ?ldb" and co: "isObject (snd pdb)"
    and cs: "list_all (planCollectionReflected serverId ?ldb) (members (snd pdb))"
    by (simp_all add: planDatabaseReflected_def)
  have "foldR (planCollection ?ldb (fst pdb) serverId) (members (snd pdb)) noPass =
      Inr \<lparr>colis = (\<Union>pcol\<in>set (members (snd pdb)). set (shardNamesOf serverId (snd pcol))),
           indis = (\<Union>pcol\<in>set (members (snd pdb)). set (identitiesOf serverId (snd pcol))),
           actions = []\<rparr>"
  proof (rule foldR_effect)
    fix pcol assume "pcol \<in> set (members (snd pdb))"
    then have "planCollectionReflected serverId ?ldb pcol" using cs by (simp add: list_all_iff)
    from planCollection_reflected[OF this lo]
    show "planCollection ?ldb (fst pdb) serverId pcol noPass =
       Inr \<lparr>colis = set (shardNamesOf serverId (snd pcol)),
            indis = set (identitiesOf serverId (snd pcol)), actions = []\<rparr>" .
  qed (rule stateless_planCollection)
  then show ?thesis
    by (simp add: planDatabase_def hasKey_attr[OF assms(2)] isObject_not_None[OF lo]
        slice_get_attr[OF assms(2)] ObjectIterator_members[OF co] bindR_def)
qed

lemma planPass_reflected:
  assumes "list_all (planDatabaseReflected serverId local) (members pdbs)" and "isObject local"
  shows "foldR (planDatabase local serverId) (members pdbs) st =
           Inr (merge st \<lparr>colis = set (plannedShardNames serverId pdbs),
                          indis = set (plannedIdentities serverId pdbs), actions = []\<rparr>)"
proof -
  have "foldR (planDatabase local serverId) (members pdbs) noPass =
      Inr \<lparr>colis = (\<Union>pdb\<in>set (members pdbs).
                      \<Union>pcol\<in>set (members (snd pdb)). set (shardNamesOf serverId (snd pcol))),
           indis = (\<Union>pdb\<in>set (members pdbs).
                      \<Union>pcol\<in>set (members (snd pdb)). set (identitiesOf serverId (snd pcol))),
           actions = []\<rparr>"
  proof (rule foldR_effect)
    fix pdb assume "pdb \<in> set (members pdbs)"
    then have "planDatabaseReflected serverId local pdb" using assms(1) by (simp add: list_all_iff)
    from planDatabase_reflected[OF this assms(2)]
    show "planDatabase local serverId pdb noPass =
       Inr \<lparr>colis = (\<Union>pcol\<in>set (members (snd pdb)). set (shardNamesOf serverId (snd pcol))),
            indis = (\<Union>pcol\<in>set (members (snd pdb)). set (identitiesOf serverId (snd pcol))),
            actions = []\<rparr>" .
  qed (rule stateless_planDatabase)
  then have "foldR (planDatabase local serverId) (members pdbs) noPass =
      Inr \<lparr>colis = set (plannedShardNames serverId pdbs),
           indis = set (plannedIdentities serverId pdbs), actions = []\<rparr>"
    by (simp add: plannedShardNames_def plannedIdentities_def)
  moreover have "stateless (foldR (planDatabase local serverId) (members pdbs))"
    by (intro stateless_foldR stateless_planDatabase)
  ultimately show ?thesis
    using statelessD[of "foldR (planDatabase local serverId) (members pdbs)" st] by simp
qed


lemma foldR_id: "(\<And>x. x \<in> set xs \<Longrightarrow> f x s = Inr s) \<Longrightarrow> foldR f xs s = Inr s"
  by (induction xs) simp_all

lemma dropIndex_reflected:
  assumes "localIndexPlanned ids shname lix" and "set ids \<subseteq> indis t"
    and "\<And>x. x \<in> indis t \<Longrightarrow> CHR ''/'' \<in> set x"
  shows "dropIndex dbname shname lix t = Inr t"
proof -
  from assms(1) have ty: "indexTyped lix" by (simp add: localIndexPlanned_def)
  then have o: "isObject lix" and s: "isString (attr lix TYPE_key)" by (simp_all add: indexTyped_def)
  from s obtain lt where lt: "attr lix TYPE_key = VStr lt" by (auto elim: isStringE)
  show ?thesis
  proof (cases "autoIndex lix")
    case True
    then show ?thesis using lt
      by (auto simp: dropIndex_def slice_get_attr[OF o] bindR_def copyString_def autoIndex_def)
  next
    case False
    then have "isString (attr lix ID)" using ty by (simp add: indexTyped_def)
    then obtain iid where iid: "attr lix ID = VStr iid" by (auto elim: isStringE)
    from False assms(1) iid have ns: "CHR ''/'' \<notin> set iid" and "shname @ ''/'' @ iid \<in> set ids"
      by (simp_all add: localIndexPlanned_def str_def)
    then have m: "shname @ ''/'' @ iid \<in> indis t" using assms(2) by auto
    have "iid \<notin> indis t" using ns assms(3) by auto
    then have "t\<lparr>indis := indis t - {iid}\<rparr> = t" by simp
    then show ?thesis using False lt iid m
      by (auto simp: dropIndex_def slice_get_attr[OF o] bindR_def copyString_def autoIndex_def)
  qed
qed

lemma handleLocalShard_reflected:
  assumes "localShardReflected serverId pdbs shardMap (shname, lprops)"
    and "hd shname \<noteq> CHR ''_''" and "isObject shardMap"
    and "shname \<in> colis t" and "set (plannedIdentities serverId pdbs) \<subseteq> indis t"
    and "\<And>x. x \<in> indis t \<Longrightarrow> CHR ''/'' \<in> set x"
  shows "handleLocalShard dbname shname lprops shardMap serverId t =
           Inr (t\<lparr>colis := colis t - {shname}\<rparr>)"
proof -
  let ?servers = "attr shardMap shname"
  from assms(1,2) have o: "isObject lprops" and ls: "isString (attr lprops LEADER)"
    and sa: "isArray ?servers" and ne: "elems ?servers \<noteq> []"
    and hs: "isString (hd (elems ?servers))"
    and lead: "(attr lprops LEADER = VStr []) = (VStr serverId = hd (elems ?servers))"
    and ia: "isArray (attr lprops INDEXES)"
    and ix: "list_all (localIndexPlanned (plannedIdentities serverId pdbs) shname)
               (elems (attr lprops INDEXES))"
    by (simp_all add: localShardReflected_def)
  from sa obtain es where es: "?servers = VArr es" by (auto elim: isArrayE)
  with ne obtain l rest where l: "es = l # rest" by (cases es) (auto simp: elems_def)
  from hs es l obtain leaderId where pl: "l = VStr leaderId" by (auto simp: elems_def elim: isStringE)
  from ls obtain ll where ll: "attr lprops LEADER = VStr ll" by (auto elim: isStringE)
  have planned: "bindR (hasKey shardMap shname) (\<lambda>has.
              if has then
                bindR (slice_get shardMap shname) (\<lambda>servers.
                  if isArray servers then bindR (at0 servers) copyString else Inr [])
              else Inr []) = Inr leaderId"
    using es l pl
    by (simp add: hasKey_attr[OF assms(3)] slice_get_attr[OF assms(3)] bindR_def isArray_def
        at0_def copyString_def)
  have noResign: "\<not> (leaderId = UNDERSCORE @ serverId \<and> ll = [])"
    using lead ll es l pl by (auto simp: elems_def UNDERSCORE_def)
  let ?t1 = "t\<lparr>colis := colis t - {shname}\<rparr>"
  have "foldR (dropIndex dbname shname) (elems (attr lprops INDEXES)) ?t1 = Inr ?t1"
  proof (rule foldR_id)
    fix lix assume "lix \<in> set (elems (attr lprops INDEXES))"
    then have "localIndexPlanned (plannedIdentities serverId pdbs) shname lix"
      using ix by (simp add: list_all_iff)
    then show "dropIndex dbname shname lix ?t1 = Inr ?t1"
      by (rule dropIndex_reflected) (use assms(5,6) in auto)
  qed
  then show ?thesis
    unfolding handleLocalShard_def Let_def planned
    using noResign assms(4) ll
    by (auto simp add: bindR_def slice_get_attr[OF o] copyString_def hasKey_attr[OF o]
        isArray_not_None[OF ia] ia ArrayIterator_elems[OF ia])
qed

lemma localShards_reflected:
  assumes "list_all (localShardReflected serverId pdbs shardMap) cols" and "isObject shardMap"
    and "distinct (nonSystem (map fst cols))" and "set (nonSystem (map fst cols)) \<subseteq> colis t"
    and "set (plannedIdentities serverId pdbs) \<subseteq> indis t"
    and "\<And>x. x \<in> indis t \<Longrightarrow> CHR ''/'' \<in> set x"
  shows "foldR (localShard dbname shardMap serverId) cols t =
           Inr (t\<lparr>colis := colis t - set (nonSystem (map fst cols))\<rparr>)"
  using assms(1,3,4,5,6)
proof (induction cols arbitrary: t)
  case Nil
  show ?case by (simp add: nonSystem_def)
next
  case (Cons col cols)
  obtain shname lprops where col: "col = (shname, lprops)" by (cases col)
  from Cons.prems(1) col have r: "localShardReflected serverId pdbs shardMap (shname, lprops)"
    and rest: "list_all (localShardReflected serverId pdbs shardMap) cols" by simp_all
  from r have ne: "shname \<noteq> []" by (simp add: localShardReflected_def)
  then obtain c cs where c: "shname = c # cs" by (cases shname) auto
  show ?case
  proof (cases "c = CHR ''_''")
    case True
    then have "localShard dbname shardMap serverId col t = Inr t"
      using col c by (simp add: localShard_def front_def bindR_def)
    moreover have "nonSystem (map fst (col # cols)) = nonSystem (map fst cols)"
      using True col c by (simp add: nonSystem_def)
    ultimately show ?thesis using Cons.IH[OF rest, of t] Cons.prems(2-5) by simp
  next
    case False
    then have n: "nonSystem (map fst (col # cols)) = shname # nonSystem (map fst cols)"
      using col c by (simp add: nonSystem_def)
    let ?t1 = "t\<lparr>colis := colis t - {shname}\<rparr>"
    have h: "handleLocalShard dbname shname lprops shardMap serverId t = Inr ?t1"
      by (rule handleLocalShard_reflected[OF r _ assms(2)])
         (use False c Cons.prems(3,4,5) n in auto)
    then have step: "localShard dbname shardMap serverId col t = Inr ?t1"
      using False col c by (simp add: localShard_def front_def bindR_def)
    have "foldR (localShard dbname shardMap serverId) cols ?t1 =
        Inr (?t1\<lparr>colis := colis ?t1 - set (nonSystem (map fst cols))\<rparr>)"
      by (rule Cons.IH[OF rest]) (use Cons.prems(2-5) n in auto)
    moreover have "colis t - {shname} - set (nonSystem (map fst cols)) =
        colis t - set (nonSystem (map fst (col # cols)))" using n by auto
    ultimately show ?thesis using step by simp
  qed
qed


lemma localDatabases_reflected:
  assumes "list_all (localDatabaseReflected serverId pdbs shardMap) ldbs"
    and "isObject pdbs" and "isObject shardMap"
    and "distinct (concat (map (localShardNamesOf pdbs) ldbs))"
    and "set (concat (map (localShardNamesOf pdbs) ldbs)) \<subseteq> colis t"
    and "set (plannedIdentities serverId pdbs) \<subseteq> indis t"
    and "\<And>x. x \<in> indis t \<Longrightarrow> CHR ''/'' \<in> set x"
  shows "foldR (localDatabase pdbs shardMap serverId) ldbs t =
           Inr (t\<lparr>colis := colis t - set (concat (map (localShardNamesOf pdbs) ldbs))\<rparr>)"
  using assms(1,4,5,6,7)
proof (induction ldbs arbitrary: t)
  case Nil
  show ?case by simp
next
  case (Cons db ldbs)
  from Cons.prems(1) have r: "localDatabaseReflected serverId pdbs shardMap db"
    and rest: "list_all (localDatabaseReflected serverId pdbs shardMap) ldbs" by simp_all
  let ?names = "localShardNamesOf pdbs db"
  let ?t1 = "t\<lparr>colis := colis t - set ?names\<rparr>"
  have step: "localDatabase pdbs shardMap serverId db t = Inr ?t1"
  proof (cases "attr pdbs (fst db) = VNone")
    case True
    then show ?thesis
      by (simp add: localDatabase_def hasKey_attr[OF assms(2)] bindR_def localShardNamesOf_def)
  next
    case False
    with r have o: "isObject (snd db)"
      and cs: "list_all (localShardReflected serverId pdbs shardMap) (members (snd db))"
      by (simp_all add: localDatabaseReflected_def)
    have n: "?names = nonSystem (map fst (members (snd db)))"
      using False by (simp add: localShardNamesOf_def)
    have "foldR (localShard (fst db) shardMap serverId) (members (snd db)) t =
        Inr (t\<lparr>colis := colis t - set (nonSystem (map fst (members (snd db))))\<rparr>)"
      by (rule localShards_reflected[OF cs assms(3)]) (use Cons.prems(2-5) n in auto)
    then show ?thesis using False n
      by (simp add: localDatabase_def hasKey_attr[OF assms(2)] bindR_def
          ObjectIterator_members[OF o])
  qed
  have "foldR (localDatabase pdbs shardMap serverId) ldbs ?t1 =
      Inr (?t1\<lparr>colis := colis ?t1 - set (concat (map (localShardNamesOf pdbs) ldbs))\<rparr>)"
    by (rule Cons.IH[OF rest]) (use Cons.prems(2-5) in auto)
  moreover have "colis t - set ?names - set (concat (map (localShardNamesOf pdbs) ldbs)) =
      colis t - set (concat (map (localShardNamesOf pdbs) (db # ldbs)))" by auto
  ultimately show ?case using step by simp
qed

lemma getShardMap_reflected:
  assumes "list_all (planDatabaseReflected serverId local) (members pdbs)" and "isObject pdbs"
  shows "\<exists>m. getShardMap pdbs = Inr (VObj m)"
proof -
  have inner: "\<exists>m. foldR (\<lambda>collection shardMap'.
                    bindR (bindR (slice_get (snd collection) SHARDS) ObjectIterator) (\<lambda>shards.
                      Inr (shardMap' @ shards))) cols acc = Inr m"
    if "list_all (planCollectionReflected serverId ldb) cols" for cols ldb and acc :: "(string \<times> vpack) list"
    using that
  proof (induction cols arbitrary: acc)
    case Nil
    show ?case by simp
  next
    case (Cons c cols)
    then have "isObject (snd c)" "isObject (attr (snd c) SHARDS)"
      by (simp_all add: planCollectionReflected_def)
    then show ?case using Cons
      by (simp add: slice_get_attr ObjectIterator_members bindR_def)
  qed
  have outer: "\<exists>m. foldR (\<lambda>database shardMap.
              bindR (ObjectIterator (snd database)) (\<lambda>collections.
                foldR (\<lambda>collection shardMap'.
                    bindR (bindR (slice_get (snd collection) SHARDS) ObjectIterator) (\<lambda>shards.
                      Inr (shardMap' @ shards)))
                  collections shardMap)) dbs acc = Inr m"
    if "list_all (planDatabaseReflected serverId local) dbs" for dbs and acc :: "(string \<times> vpack) list"
    using that
  proof (induction dbs arbitrary: acc)
    case Nil
    show ?case by simp
  next
    case (Cons d dbs)
    then have o: "isObject (snd d)"
      and cs: "list_all (planCollectionReflected serverId (attr local (fst d))) (members (snd d))"
      by (simp_all add: planDatabaseReflected_def)
    from inner[OF cs, of acc] obtain m where
      "foldR (\<lambda>collection shardMap'.
          bindR (bindR (slice_get (snd collection) SHARDS) ObjectIterator) (\<lambda>shards.
            Inr (shardMap' @ shards))) (members (snd d)) acc = Inr m" by blast
    then show ?case using Cons o
      by (simp add: ObjectIterator_members bindR_def)
  qed
  from outer[OF assms(1), of "[]"] show ?thesis
    by (auto simp: getShardMap_def ObjectIterator_members[OF assms(2)] bindR_def)
qed

lemma plannedIdentities_slash:
  "x \<in> set (plannedIdentities serverId pdbs) \<Longrightarrow> CHR ''/'' \<in> set x"
  by (auto simp: plannedIdentities_def identitiesOf_def)

theorem diffPlanLocal_reflected:
  assumes "reflects serverId plan local"
  shows "diffPlanLocal plan local serverId [] = Inr []"
proof -
  let ?pd = "attr plan ''Databases''" and ?pc = "attr plan COLLECTIONS"
  let ?st0 = "\<lparr>colis = {}, indis = {}, actions = []\<rparr>"
  from assms have lo: "isObject local" and pdo: "isObject ?pd" and pco: "isObject ?pc"
    and a1: "list_all (\<lambda>pdb. attr local (fst pdb) \<noteq> VNone) (members ?pd)"
    and a2: "list_all (\<lambda>ldb. attr ?pd (fst ldb) \<noteq> VNone) (members local)"
    and a3: "list_all (planDatabaseReflected serverId local) (members ?pc)"
    and a4: "list_all (localDatabaseReflected serverId ?pc
                     (case getShardMap ?pc of Inl e \<Rightarrow> VNone | Inr m \<Rightarrow> m)) (members local)"
    and a5: "distinct (localShardNames ?pc local)"
    by (simp_all add: reflects_def)
  have po: "isObject plan"
  proof (rule ccontr)
    assume "\<not> isObject plan"
    then have "members plan = []" by (cases plan) (simp_all add: members_def isObject_def)
    then have "?pd = VNone" by (simp add: attr_def lookupKey_def)
    with pdo show False by (simp add: isObject_def)
  qed
  have l1: "foldR (planDatabaseCreate local) (members ?pd) ?st0 = Inr ?st0"
    by (rule foldR_id)
       (use a1 in \<open>auto simp: planDatabaseCreate_def hasKey_attr[OF lo] bindR_def list_all_iff\<close>)
  have l2: "foldR (localDatabaseDrop plan) (members local) ?st0 = Inr ?st0"
    by (rule foldR_id)
       (use a2 in \<open>auto simp: localDatabaseDrop_def hasKey_path_def slice_get_attr[OF po]
          slice_get_attr[OF pdo] isObject_not_None[OF pdo] pdo bindR_def list_all_iff\<close>)
  let ?st3 = "\<lparr>colis = set (plannedShardNames serverId ?pc),
               indis = set (plannedIdentities serverId ?pc), actions = []\<rparr>"
  have l3: "foldR (planDatabase local serverId) (members ?pc) ?st0 = Inr ?st3"
    using planPass_reflected[OF a3 lo, of ?st0] by (simp add: merge_def)
  from getShardMap_reflected[OF a3 pco] obtain m where sm: "getShardMap ?pc = Inr (VObj m)" by blast
  have smo: "isObject (VObj m)" by (simp add: isObject_def)
  from a4 sm have a4': "list_all (localDatabaseReflected serverId ?pc (VObj m)) (members local)"
    by simp
  have names: "set (concat (map (localShardNamesOf ?pc) (members local))) \<subseteq> colis ?st3"
  proof
    fix n assume "n \<in> set (concat (map (localShardNamesOf ?pc) (members local)))"
    then obtain db where db: "db \<in> set (members local)" and n: "n \<in> set (localShardNamesOf ?pc db)"
      by auto
    then have np: "attr ?pc (fst db) \<noteq> VNone" and nn: "n \<in> set (nonSystem (map fst (members (snd db))))"
      by (auto simp: localShardNamesOf_def split: if_splits)
    from a4' db have "localDatabaseReflected serverId ?pc (VObj m) db" by (simp add: list_all_iff)
    with np have cs: "list_all (localShardReflected serverId ?pc (VObj m)) (members (snd db))"
      by (simp add: localDatabaseReflected_def)
    from nn obtain col where "col \<in> set (members (snd db))" "fst col = n" "hd n \<noteq> CHR ''_''"
      by (auto simp: nonSystem_def)
    with cs show "n \<in> colis ?st3"
      by (auto simp: list_all_iff localShardReflected_def)
  qed
  have l4: "foldR (localDatabase ?pc (VObj m) serverId) (members local) ?st3 =
      Inr (?st3\<lparr>colis := colis ?st3 - set (concat (map (localShardNamesOf ?pc) (members local)))\<rparr>)"
    by (rule localDatabases_reflected[OF a4' pco smo])
       (use a5 names plannedIdentities_slash in \<open>auto simp: localShardNames_def\<close>)
  show ?thesis
    unfolding diffPlanLocal_def
    by (simp add: slice_get_attr[OF po] ObjectIterator_members[OF pdo] ObjectIterator_members[OF lo]
        ObjectIterator_members[OF pco] bindR_def l1 l2 l3 sm l4)
qed

subsection \<open>The reporter on a reported snapshot\<close>

lemma foldK_id: "(\<And>x. x \<in> set xs \<Longrightarrow> f x r = (r, None)) \<Longrightarrow> foldK f xs r = (r, None)"
  by (induction xs) simp_all

lemma reportShard_reported:
  assumes "shardReported lookup cur serverId dbName shard"
  shows "reportShard lookup cur serverId dbName shard = Inr []"
proof -
  obtain shName shSlice where sh: "shard = (shName, shSlice)" by (cases shard)
  from assms sh obtain c cs where c: "shName = c # cs"
    by (cases shName) (auto simp: shardReported_def)
  show ?thesis
  proof (cases "c = CHR ''_''")
    case True
    then show ?thesis using sh c by (simp add: reportShard_def string_at0_def bindR_def)
  next
    case False
    with assms sh c have o: "isObject shSlice" and p: "isString (attr shSlice PLAN_ID)"
      and l: "isString (attr shSlice LEADER)"
      and r: "if attr shSlice LEADER = VStr []
            then leaderReported lookup cur serverId dbName shard
            else followerReported cur serverId dbName shard"
      by (simp_all add: shardReported_def)
    from p obtain colName where colName: "attr shSlice PLAN_ID = VStr colName" by (auto elim: isStringE)
    from l obtain leader where leader: "attr shSlice LEADER = VStr leader" by (auto elim: isStringE)
    show ?thesis
    proof (cases "leader = []")
      case True
      with r leader have "leaderReported lookup cur serverId dbName shard" by simp
      then show ?thesis using sh c False colName leader True
        by (auto simp: reportShard_def string_at0_def bindR_def slice_get_attr[OF o] copyString_def
            leaderReported_def str_def hasKey_path_def Let_def split: sum.splits)
    next
      case F: False
      with r leader have "followerReported cur serverId dbName shard" by simp
      then show ?thesis using sh c False colName leader F
        by (auto simp: reportShard_def string_at0_def bindR_def slice_get_attr[OF o] copyString_def
            followerReported_def str_def hasKey_path_def Let_def isArray_def at0_def isString_def
            split: sum.splits vpack.splits list.splits)
    qed
  qed
qed

lemma get_path_object: "isObject v \<Longrightarrow> ks \<noteq> [] \<Longrightarrow> \<exists>r. get_path v ks = Inr r"
proof (induction v ks rule: get_path.induct)
  case (1 s)
  then show ?case by simp
next
  case (2 s k)
  then show ?case by (simp add: slice_get_attr)
next
  case (3 s k k' ks)
  then show ?case by (auto simp: slice_get_attr)
qed

lemma reportDatabase_reported:
  assumes "databaseReported lookup cur serverId database" and "isObject cur"
  shows "reportDatabase lookup cur serverId database report = (report, None)"
proof -
  from assms have o: "isObject (snd database)"
    and e: "hasKey_path cur [''Databases'', fst database, serverId] = Inr True
       \<or> lookup (fst database) = None"
    and s: "list_all (shardReported lookup cur serverId (fst database)) (members (snd database))"
    by (simp_all add: databaseReported_def)
  from get_path_object[OF assms(2), of "[''Databases'', fst database, serverId]"]
  obtain b where b: "hasKey_path cur [''Databases'', fst database, serverId] = Inr b"
    by (auto simp: hasKey_path_def bindR_def)
  have "reportDatabaseEntry lookup cur serverId (fst database) = Inr []"
    using e b
    by (auto simp: reportDatabaseEntry_def bindR_def assembleLocalDatabaseInfo_def isEmptyObject_def)
  then have entry: "attempt (reportDatabaseEntry lookup cur serverId (fst database)) report = (report, None)"
    by (simp add: attempt_def)
  have "foldK (\<lambda>shard. attempt (reportShard lookup cur serverId (fst database) shard))
             (members (snd database)) report = (report, None)"
    by (rule foldK_id) (use s in \<open>simp add: reportShard_reported list_all_iff attempt_def\<close>)
  then show ?thesis using entry
    by (simp add: reportDatabase_def thenK_def ObjectIterator_members[OF o])
qed


lemma staleShard_kept:
  assumes "currentShardKept local shardMap serverId dbName shard"
    and "isObject local" and "isObject shardMap"
  shows "staleShard local shardMap serverId dbName colName shard = Inr []"
proof -
  from assms(1) have o: "isObject (snd shard)" by (simp add: currentShardKept_def)
  have hp: "hasKey_path local [dbName, fst shard] = Inr (attr (attr local dbName) (fst shard) \<noteq> VNone)"
  proof (cases "isObject (attr local dbName)")
    case True
    then show ?thesis
      by (simp add: hasKey_path_def slice_get_attr[OF assms(2)] slice_get_attr[OF True]
          isObject_not_None bindR_def)
  next
    case False
    then have "members (attr local dbName) = []"
      by (cases "attr local dbName") (simp_all add: members_def isObject_def)
    then have "attr (attr local dbName) (fst shard) = VNone" by (simp add: attr_def lookupKey_def)
    then show ?thesis using False
      by (simp add: hasKey_path_def slice_get_attr[OF assms(2)] bindR_def)
  qed
  show ?thesis
    using assms(1)
    by (auto simp: staleShard_def hasKey_attr[OF o] slice_get_attr[OF o] bindR_def
        currentShardKept_def copyString_def hp hasKey_attr[OF assms(3)] isString_def
        split: vpack.splits list.splits)
qed

lemma staleDatabase_kept:
  assumes "currentDatabaseKept local pdbs shardMap serverId database"
    and "isObject local" and "isObject pdbs" and "isObject shardMap"
  shows "staleDatabase local pdbs shardMap serverId database report = (report, None)"
proof -
  from assms(1) have k: "attr local (fst database) \<noteq> VNone \<or> attr pdbs (fst database) \<noteq> VNone"
    and o: "isObject (snd database)"
    and cs: "list_all (\<lambda>collection. isObject (snd collection) \<and>
            list_all (currentShardKept local shardMap serverId (fst database))
              (members (snd collection))) (members (snd database))"
    by (simp_all add: currentDatabaseKept_def)
  have cond: "bindR (hasKey local (fst database)) (\<lambda>isLocal.
             if \<not> isLocal then bindR (hasKey pdbs (fst database)) (\<lambda>planned. Inr (\<not> planned))
             else Inr False) = Inr False"
    using k by (auto simp: hasKey_attr[OF assms(2)] hasKey_attr[OF assms(3)] bindR_def)
  have "foldK (staleCollection local shardMap serverId (fst database)) (members (snd database)) report =
      (report, None)"
  proof (rule foldK_id)
    fix collection assume "collection \<in> set (members (snd database))"
    with cs have co: "isObject (snd collection)"
      and ss: "list_all (currentShardKept local shardMap serverId (fst database))
              (members (snd collection))"
      by (simp_all add: list_all_iff)
    have "foldK (\<lambda>shard. attempt (staleShard local shardMap serverId (fst database) (fst collection) shard))
            (members (snd collection)) report = (report, None)"
      by (rule foldK_id)
         (use ss in \<open>simp add: staleShard_kept[OF _ assms(2,4)] list_all_iff attempt_def\<close>)
    then show "staleCollection local shardMap serverId (fst database) collection report = (report, None)"
      by (simp add: staleCollection_def ObjectIterator_members[OF co])
  qed
  then show ?thesis
    unfolding staleDatabase_def cond
    by (simp add: ObjectIterator_members[OF o])
qed

lemma getShardMap_isObject: "getShardMap pdbs = Inr m \<Longrightarrow> isObject m"
  by (auto simp: getShardMap_def isObject_def dest!: bindR_Inr)

theorem reportInCurrent_reported:
  assumes "reported lookup serverId plan cur local"
  shows "reportInCurrent lookup plan cur local serverId [] = ([], None)"
proof -
  from assms have lo: "isObject local" and co: "isObject cur" and po: "isObject plan"
    and dbs: "list_all (databaseReported lookup cur serverId) (members local)"
    and cco: "isObject (attr cur COLLECTIONS)" and pco: "isObject (attr plan COLLECTIONS)"
    by (simp_all add: reported_def)
  from assms obtain shardMap where sm: "getShardMap (attr plan COLLECTIONS) = Inr shardMap"
    and kept: "list_all (currentDatabaseKept local (attr plan COLLECTIONS) shardMap serverId)
                (members (attr cur COLLECTIONS))"
    by (auto simp: reported_def split: sum.splits)
  have smo: "isObject shardMap" using sm by (rule getShardMap_isObject)
  have f1: "foldK (reportDatabase lookup cur serverId) (members local) [] = ([], None)"
    by (rule foldK_id) (use dbs in \<open>simp add: reportDatabase_reported[OF _ co] list_all_iff\<close>)
  have f2: "foldK (staleDatabase local (attr plan COLLECTIONS) shardMap serverId)
      (members (attr cur COLLECTIONS)) [] = ([], None)"
    by (rule foldK_id)
       (use kept in \<open>simp add: staleDatabase_kept[OF _ lo pco smo] list_all_iff\<close>)
  show ?thesis
    by (simp add: reportInCurrent_def ObjectIterator_members[OF lo] f1 thenK_def
        slice_get_attr[OF co] slice_get_attr[OF po] sm ObjectIterator_members[OF cco] bindR_def f2)
qed

subsection \<open>Both directions\<close>

text \<open>
  C5, as the code has it. When Local reflects Plan for this server (\<open>reflects\<close>: every
  planned database is in Local and every local database in Plan; every planned shard of
  this server is held locally with equal relevant properties, a leader field that matches
  the planned role, and a local index of the same type and fields for every planned
  index; every local non-system shard of a planned database is a planned shard of this
  server, once, with matching leadership, and each of its indexes carries the id of a
  planned index, an id without a slash), \<^verbatim>\<open>diffPlanLocal\<close> returns the empty action list.
  When Local is reported in Current (\<open>reported\<close>: the snapshot of every leader shard is
  equivalently recorded, and also every local database is reported, no follower shard is
  listed with this node first, and Current holds nothing stale), \<^verbatim>\<open>reportInCurrent\<close>
  adds no operation to the report and ends without a fault.
\<close>

theorem idempotent_on_reflected_and_reported:
  "(reflects serverId plan local \<longrightarrow> diffPlanLocal plan local serverId [] = Inr [])
   \<and> (reported lookup serverId' plan' cur local' \<longrightarrow>
        reportInCurrent lookup plan' cur local' serverId' [] = ([], None))"
  using diffPlanLocal_reflected reportInCurrent_reported by blast

definition hashIndex7 :: vpack where
  "hashIndex7 = VObj [(''id'', VStr ''7''), (''type'', VStr ''hash''),
                      (''fields'', VArr [VStr ''x'', VStr ''y''])]"

definition primaryIndex0 :: vpack where
  "primaryIndex0 = VObj [(''id'', VStr ''0''), (''type'', VStr ''primary''),
                         (''fields'', VArr [VStr ''_key''])]"

definition plan2 :: vpack where
  "plan2 = VObj [(''Version'', VNum 3), (''Databases'', VObj [(''d'', VObj [])]),
     (''Collections'', VObj [(''d'', VObj [(''c'', VObj [(''journalSize'', VNum 100),
        (''shards'', VObj [(''s1'', VArr [VStr ''A'', VStr ''B'']),
                           (''s2'', VArr [VStr ''B'', VStr ''A'']),
                           (''s3'', VArr [VStr ''B''])]),
        (''indexes'', VArr [primaryIndex0, hashIndex7])])])])]"

definition local2 :: vpack where
  "local2 = VObj [(''d'', VObj [
     (''s1'', VObj [(''planId'', VStr ''c''), (''journalSize'', VNum 100), (''leader'', VStr []),
                    (''indexes'', VArr [primaryIndex0, hashIndex7])]),
     (''s2'', VObj [(''planId'', VStr ''c''), (''journalSize'', VNum 100), (''leader'', VStr ''B''),
                    (''indexes'', VArr [primaryIndex0, hashIndex7])]),
     (''_graphs'', VObj [])])]"

definition currentCollections2 :: vpack where
  "currentCollections2 = VObj [(''d'', VObj [(''c'', VObj [
      (''s1'', VObj [(''error'', VBool False), (''errorMessage'', VStr []), (''errorNum'', VNum 0),
                     (''indexes'', VArr [primaryIndex0, hashIndex7]),
                     (''servers'', VArr [VStr ''A'', VStr ''B''])]),
      (''s2'', VObj [(''error'', VBool False), (''errorMessage'', VStr []), (''errorNum'', VNum 0),
                     (''indexes'', VArr [primaryIndex0, hashIndex7]),
                     (''servers'', VArr [VStr ''B'', VStr ''A''])])])])]"

definition current2 :: vpack where
  "current2 = VObj [(''Version'', VNum 5),
     (''Databases'', VObj [(''d'', VObj [(''A'', VObj [(''name'', VStr ''d'')])])]),
     (''Collections'', currentCollections2)]"

definition current3 :: vpack where
  "current3 = VObj [(''Version'', VNum 5), (''Databases'', VObj []),
     (''Collections'', currentCollections2)]"

lemmas example_defs = plan2_def local2_def current2_def current3_def currentCollections2_def
  hashIndex7_def primaryIndex0_def storage1_def

theorem idempotent_on_reflected_and_reported_witness:
  "reflects ''A'' plan2 local2 \<and> diffPlanLocal plan2 local2 ''A'' [] = Inr []
   \<and> reported storage1 ''A'' plan2 current2 local2
   \<and> reportInCurrent storage1 plan2 current2 local2 ''A'' [] = ([], None)"
proof -
  have r: "reflects ''A'' plan2 local2"
    by (simp add: reflect_defs slice_defs name_defs example_defs getShardMap_def cmp_def)
  have c: "reported storage1 ''A'' plan2 current2 local2"
    by (simp add: reported_defs reflect_defs report_defs slice_defs name_defs example_defs)
  from idempotent_on_reflected_and_reported[of "''A''" plan2 local2 storage1 "''A''" plan2 current2 local2]
    r c show ?thesis by blast
qed

text \<open>
  C5 as stated fails in its second half. The snapshots of both local shards are
  equivalently recorded in Current (the loop body adds nothing for either), but Current
  has no entry for the database under this server, and the reporter adds a \<open>set\<close>
  operation for \<open>Current/Databases/d/A\<close>.
\<close>

theorem recorded_shards_still_report_database:
  "reportShard storage1 current3 ''A'' ''d''
     (''s1'', VObj [(''planId'', VStr ''c''), (''journalSize'', VNum 100), (''leader'', VStr []),
                    (''indexes'', VArr [primaryIndex0, hashIndex7])]) = Inr []
   \<and> reportShard storage1 current3 ''A'' ''d''
     (''s2'', VObj [(''planId'', VStr ''c''), (''journalSize'', VNum 100), (''leader'', VStr ''B''),
                    (''indexes'', VArr [primaryIndex0, hashIndex7])]) = Inr []
   \<and> reportInCurrent storage1 plan2 current3 local2 ''A'' [] =
       ([(''Current/Databases/d/A'',
          VObj [(''op'', VStr ''set''),
                (''payload'', VObj [(''error'', VBool False), (''errorNum'', VNum 0),
                   (''errorMessage'', VStr []), (''id'', VStr ''1''), (''name'', VStr ''d'')])])],
        None)"
  by (simp add: report_defs slice_defs name_defs example_defs)

end
